theory Spec2Isabelle
  imports Complex_Main "HOL-Library.Multiset"
begin

section \<open>Numbers and small JavaScript helpers\<close>

text \<open>
  The piece-interaction engine of the jigsaw application (\<^verbatim>\<open>src/game/piece.ts\<close>,
  \<^verbatim>\<open>src/utils/touch.ts\<close>, \<^verbatim>\<open>src/game/puzzleBoard.ts\<close>) is embedded here.
  A JavaScript \<^verbatim>\<open>number\<close> that holds a coordinate, an angle or a scale is a \<^typ>\<open>real\<close>:
  rounding, infinities and NaN are not part of this model. Piece ids are \<^typ>\<open>int\<close>.
  An object of the form \<^verbatim>\<open>{ x, y }\<close> is a pair.
\<close>

type_synonym point = "real \<times> real"

definition jsmod :: "real \<Rightarrow> real \<Rightarrow> real" where
  \<comment> \<open>the remainder operator \<^verbatim>\<open>a % b\<close>: the quotient is truncated towards zero\<close>
  "jsmod a b = a - b * of_int (if 0 \<le> a / b then \<lfloor>a / b\<rfloor> else \<lceil>a / b\<rceil>)"

definition hypot :: "real \<Rightarrow> real \<Rightarrow> real" where
  \<comment> \<open>\<^verbatim>\<open>Math.hypot(a, b)\<close>\<close>
  "hypot a b = sqrt (a * a + b * b)"

text \<open>
  A \<^verbatim>\<open>Set<number>\<close> keeps its elements in insertion order without repetition; it is a
  list here. \<^verbatim>\<open>has\<close> is membership in \<^term>\<open>set xs\<close>.
\<close>

definition setAdd :: "int \<Rightarrow> int list \<Rightarrow> int list" where
  "setAdd i xs = (if i \<in> set xs then xs else xs @ [i])"

definition setDelete :: "int \<Rightarrow> int list \<Rightarrow> int list" where
  "setDelete i xs = removeAll i xs"

definition setFromList :: "int list \<Rightarrow> int list" where
  \<comment> \<open>\<^verbatim>\<open>new Set(iterable)\<close>, and a loop of \<^verbatim>\<open>add\<close> calls on an empty set\<close>
  "setFromList xs = fold setAdd xs []"

section \<open>Pieces (\<^verbatim>\<open>src/game/piece.ts\<close>)\<close>

datatype Edge = EdgeTop | EdgeRight | EdgeBottom | EdgeLeft

datatype Polarity = Tab | Blank

text \<open>
  The field \<^verbatim>\<open>type\<close> of a connection is \<open>ctype\<close> here; \<^verbatim>\<open>null\<close> (a straight edge) and
  an absent optional field are \<^term>\<open>None\<close>.
\<close>

record PieceConnection =
  edge :: Edge
  ctype :: "Polarity option"
  matingPieceId :: "int option"
  matingEdge :: "Edge option"

text \<open>
  The fields \<^verbatim>\<open>id\<close>, \<^verbatim>\<open>x\<close>, \<^verbatim>\<open>y\<close> of a piece are \<open>pid\<close>, \<open>px\<close>, \<open>py\<close> here. The
  entries of \<^verbatim>\<open>connections\<close> may be holes of the array, hence the options. The image
  data and the render cache are left out.
\<close>

record PuzzlePiece =
  pid :: int
  px :: real
  py :: real
  width :: real
  height :: real
  rotation :: real
  faceUp :: bool
  connections :: "PieceConnection option list"
  isDragging :: bool
  dragOffset :: point
  isLocked :: bool
  originalPosition :: point
  connectedPieces :: "int list"

definition getBounds :: "PuzzlePiece \<Rightarrow> real \<times> real \<times> real \<times> real" where
  \<comment> \<open>the result is (x, y, width, height)\<close>
  "getBounds p =
     (let isRotated90 = (\<bar>jsmod (rotation p) 180\<bar> = 90)
      in (px p, py p,
          if isRotated90 then height p else width p,
          if isRotated90 then width p else height p))"

definition containsPoint :: "PuzzlePiece \<Rightarrow> real \<Rightarrow> real \<Rightarrow> bool" where
  "containsPoint p x y =
     (case getBounds p of (bx, by, bw, bh) \<Rightarrow>
        x \<ge> bx \<and> x \<le> bx + bw \<and> y \<ge> by \<and> y \<le> by + bh)"

definition flip :: "PuzzlePiece \<Rightarrow> PuzzlePiece" where
  "flip p = p\<lparr>faceUp := \<not> faceUp p\<rparr>"

definition rotate90 :: "PuzzlePiece \<Rightarrow> PuzzlePiece" where
  "rotate90 p = (if faceUp p then p\<lparr>rotation := jsmod (rotation p + 90) 360\<rparr> else p)"

section \<open>Snap detection (\<^verbatim>\<open>src/utils/touch.ts\<close>)\<close>

text \<open>
  Objects are shared and mutated in place, so the board keeps them in a store: an
  address is a natural number, \<open>h a\<close> is the piece object at address \<open>a\<close>, and an array
  of pieces is a list of addresses.
\<close>

type_synonym addr = nat
type_synonym store = "addr \<Rightarrow> PuzzlePiece"

definition SNAP_DISTANCE :: real where
  \<comment> \<open>\<^verbatim>\<open>APP_CONFIG.SNAPPING.DISTANCE\<close>\<close>
  "SNAP_DISTANCE = 30"

definition rotateVector :: "real \<Rightarrow> real \<Rightarrow> real \<Rightarrow> point" where
  "rotateVector x y degrees =
     (let radians = (degrees * pi) / 180;
          c = cos radians;
          s = sin radians
      in (x * c - y * s, x * s + y * c))"

fun getConnectionLoop :: "PieceConnection option list \<Rightarrow> int \<Rightarrow> PieceConnection option" where
  "getConnectionLoop [] i = None"
| "getConnectionLoop (None # cs) i = getConnectionLoop cs i"
| "getConnectionLoop (Some c # cs) i =
     (if ctype c = None then getConnectionLoop cs i
      else if matingPieceId c \<noteq> Some i then getConnectionLoop cs i
      else Some c)"

definition getConnection :: "PuzzlePiece \<Rightarrow> PuzzlePiece \<Rightarrow> PieceConnection option" where
  "getConnection piece1 piece2 = getConnectionLoop (connections piece1) (pid piece2)"

record Snap =
  targetPiece :: addr
  snapX :: real
  snapY :: real
  connection :: PieceConnection
  distance :: real

text \<open>
  The body of the loop of \<^verbatim>\<open>findSnapTarget\<close> from the point where the connection is
  known: the centres, the rotated solved-space offset, the expected centre, the snap
  position and the distance.
\<close>

definition expectedCenter :: "PuzzlePiece \<Rightarrow> PuzzlePiece \<Rightarrow> point" where
  "expectedCenter draggedPiece piece =
     (let targetCenter = (px piece + width piece / 2, py piece + height piece / 2);
          originalDelta =
            ((fst (originalPosition draggedPiece) + width draggedPiece / 2)
               - (fst (originalPosition piece) + width piece / 2),
             (snd (originalPosition draggedPiece) + height draggedPiece / 2)
               - (snd (originalPosition piece) + height piece / 2));
          rotatedDelta = rotateVector (fst originalDelta) (snd originalDelta) (rotation draggedPiece)
      in (fst targetCenter + fst rotatedDelta, snd targetCenter + snd rotatedDelta))"

definition snapOf :: "store \<Rightarrow> addr \<Rightarrow> real \<Rightarrow> real \<Rightarrow> addr \<Rightarrow> PieceConnection \<Rightarrow> Snap" where
  "snapOf h dragged draggedX draggedY p conn =
     (let draggedCenter = (draggedX + width (h dragged) / 2, draggedY + height (h dragged) / 2);
          expected = expectedCenter (h dragged) (h p)
      in \<lparr>targetPiece = p,
          snapX = fst expected - width (h dragged) / 2,
          snapY = snd expected - height (h dragged) / 2,
          connection = conn,
          distance = hypot (fst draggedCenter - fst expected) (snd draggedCenter - snd expected)\<rparr>)"

fun snapLoop :: "store \<Rightarrow> addr \<Rightarrow> real \<Rightarrow> real \<Rightarrow> addr list \<Rightarrow> Snap option \<Rightarrow> Snap option" where
  "snapLoop h dragged draggedX draggedY [] closestSnap = closestSnap"
| "snapLoop h dragged draggedX draggedY (p # ps) closestSnap =
     (if pid (h p) = pid (h dragged) then snapLoop h dragged draggedX draggedY ps closestSnap
      else if pid (h p) \<in> set (connectedPieces (h dragged))
        then snapLoop h dragged draggedX draggedY ps closestSnap
      else if \<not> faceUp (h p) then snapLoop h dragged draggedX draggedY ps closestSnap
      else if rotation (h p) \<noteq> rotation (h dragged)
        then snapLoop h dragged draggedX draggedY ps closestSnap
      else case getConnection (h dragged) (h p) of
        None \<Rightarrow> snapLoop h dragged draggedX draggedY ps closestSnap
      | Some conn \<Rightarrow>
          (let cand = snapOf h dragged draggedX draggedY p conn
           in if distance cand < SNAP_DISTANCE
                 \<and> (case closestSnap of None \<Rightarrow> True | Some c \<Rightarrow> distance cand < distance c)
              then snapLoop h dragged draggedX draggedY ps (Some cand)
              else snapLoop h dragged draggedX draggedY ps closestSnap))"

text \<open>
  The guards of the loop of \<^verbatim>\<open>findSnapTarget\<close> collected in one predicate: \<open>p\<close> passes
  every \<^verbatim>\<open>continue\<close> and its distance is below the threshold.
\<close>

definition isSnapCandidate :: "store \<Rightarrow> addr \<Rightarrow> real \<Rightarrow> real \<Rightarrow> addr \<Rightarrow> bool" where
  "isSnapCandidate h dragged draggedX draggedY p =
     (faceUp (h dragged)
      \<and> pid (h p) \<noteq> pid (h dragged)
      \<and> pid (h p) \<notin> set (connectedPieces (h dragged))
      \<and> faceUp (h p)
      \<and> rotation (h p) = rotation (h dragged)
      \<and> (case getConnection (h dragged) (h p) of
            None \<Rightarrow> False
          | Some conn \<Rightarrow> distance (snapOf h dragged draggedX draggedY p conn) < SNAP_DISTANCE))"

definition findSnapTarget :: "store \<Rightarrow> addr \<Rightarrow> addr list \<Rightarrow> real \<Rightarrow> real \<Rightarrow> Snap option" where
  "findSnapTarget h draggedPiece allPieces draggedX draggedY =
     (if \<not> faceUp (h draggedPiece) then None
      else snapLoop h draggedPiece draggedX draggedY allPieces None)"

section \<open>The board (\<^verbatim>\<open>src/game/puzzleBoard.ts\<close>)\<close>

text \<open>
  The state of a \<^verbatim>\<open>PuzzleBoard\<close>: the store of piece objects, \<^verbatim>\<open>this.pieces\<close> as the
  list of their addresses in draw order, and the fields the pointer handlers read and
  write. The field \<^verbatim>\<open>isDragging\<close> of the board is \<open>boardDragging\<close>. An active animation
  is only tested for being present, so it is a flag. Every call of the progress handler
  is recorded, in order, in \<open>progressReports\<close>. Rendering, sound, logging and the
  event bus are left out, and so is the two-pointer pinch gesture: the pointer
  entry points below are the ones taken while a single pointer is down.
\<close>

record Camera =
  scale :: real
  offsetX :: real
  offsetY :: real

record PuzzleBoard =
  heap :: store
  pieces :: "addr list"
  selectedPiece :: "addr option"
  boardDragging :: bool
  pointerDownScreenPos :: "point option"
  hasMovedBeyondThreshold :: bool
  camera :: Camera
  dragPointerId :: "int option"
  panPointerId :: "int option"
  panLast :: "point option"
  activeAnimation :: bool
  progressReports :: "(nat \<times> nat) list"

definition MIN_SCALE :: real where "MIN_SCALE = 0.25"
definition MAX_SCALE :: real where "MAX_SCALE = 4"

definition DRAG_THRESHOLD :: real where
  \<comment> \<open>\<^verbatim>\<open>APP_CONFIG.SNAPPING.DRAG_THRESHOLD\<close>\<close>
  "DRAG_THRESHOLD = 5"

subsection \<open>Groups\<close>

definition findPiece :: "store \<Rightarrow> addr list \<Rightarrow> int \<Rightarrow> addr option" where
  \<comment> \<open>\<^verbatim>\<open>this.pieces.find(p => p.id === pieceId)\<close>\<close>
  "findPiece h ps i = List.find (\<lambda>a. pid (h a) = i) ps"

definition allConnected :: "store \<Rightarrow> addr list \<Rightarrow> int set" where
  \<comment> \<open>every id named by a connected-set of the board; used to bound the traversal\<close>
  "allConnected h ps = (\<Union>a \<in> set ps. set (connectedPieces (h a)))"

text \<open>
  The \<^verbatim>\<open>while\<close> loop of \<^verbatim>\<open>getAllPiecesInGroup\<close>. The stack \<^verbatim>\<open>toVisit\<close> has its top
  at the head of the list: \<^verbatim>\<open>pop\<close> takes the head and \<^verbatim>\<open>push\<close> conses. The array
  \<^verbatim>\<open>group\<close> is \<open>grp\<close>.
\<close>

function groupLoop :: "store \<Rightarrow> addr list \<Rightarrow> int set \<Rightarrow> int list \<Rightarrow> addr list \<Rightarrow> addr list" where
  "groupLoop h ps visited [] grp = grp"
| "groupLoop h ps visited (pieceId # toVisit) grp =
     (if pieceId \<in> visited then groupLoop h ps visited toVisit grp
      else case findPiece h ps pieceId of
          None \<Rightarrow> groupLoop h ps (insert pieceId visited) toVisit grp
        | Some connectedPiece \<Rightarrow>
            groupLoop h ps (insert pieceId visited)
              (rev (filter (\<lambda>i. i \<notin> insert pieceId visited) (connectedPieces (h connectedPiece)))
                 @ toVisit)
              (grp @ [connectedPiece]))"
  by pat_completeness auto
termination
proof (relation "measures [\<lambda>(h, ps, visited, toVisit, grp).
                              card ((set toVisit \<union> allConnected h ps) - visited),
                           \<lambda>(h, ps, visited, toVisit, grp). length toVisit]")
  show "wf (measures [\<lambda>(h, ps, visited, toVisit, grp).
                              card ((set toVisit \<union> allConnected h ps) - visited),
                           \<lambda>(h, ps, visited, toVisit, grp). length toVisit])"
    by simp
next
  fix h :: store and ps :: "addr list" and visited :: "int set" and pieceId :: int
    and toVisit :: "int list" and grp :: "addr list"
  assume "pieceId \<in> visited"
  have "(set toVisit \<union> allConnected h ps) - visited
          = (set (pieceId # toVisit) \<union> allConnected h ps) - visited"
    using \<open>pieceId \<in> visited\<close> by auto
  then show "((h, ps, visited, toVisit, grp), (h, ps, visited, pieceId # toVisit, grp))
        \<in> measures [\<lambda>(h, ps, visited, toVisit, grp).
                              card ((set toVisit \<union> allConnected h ps) - visited),
                           \<lambda>(h, ps, visited, toVisit, grp). length toVisit]"
    by simp
next
  fix h :: store and ps :: "addr list" and visited :: "int set" and pieceId :: int
    and toVisit :: "int list" and grp :: "addr list"
  assume nv: "pieceId \<notin> visited"
  have fin: "finite ((set (pieceId # toVisit) \<union> allConnected h ps) - visited)"
    by (simp add: allConnected_def)
  have "(set toVisit \<union> allConnected h ps) - insert pieceId visited
          \<subset> (set (pieceId # toVisit) \<union> allConnected h ps) - visited"
    using nv by auto
  then have "card ((set toVisit \<union> allConnected h ps) - insert pieceId visited)
          < card ((set (pieceId # toVisit) \<union> allConnected h ps) - visited)"
    using fin by (rule psubset_card_mono[rotated])
  then show "((h, ps, insert pieceId visited, toVisit, grp),
              (h, ps, visited, pieceId # toVisit, grp))
        \<in> measures [\<lambda>(h, ps, visited, toVisit, grp).
                              card ((set toVisit \<union> allConnected h ps) - visited),
                           \<lambda>(h, ps, visited, toVisit, grp). length toVisit]"
    by simp
next
  fix h :: store and ps :: "addr list" and visited :: "int set" and pieceId :: int
    and toVisit :: "int list" and grp :: "addr list" and c :: addr
  assume nv: "pieceId \<notin> visited" and f: "findPiece h ps pieceId = Some c"
  from f have "c \<in> set ps"
    by (auto simp: findPiece_def find_Some_iff)
  then have sub: "set (connectedPieces (h c)) \<subseteq> allConnected h ps"
    by (auto simp: allConnected_def)
  have fin: "finite ((set (pieceId # toVisit) \<union> allConnected h ps) - visited)"
    by (simp add: allConnected_def)
  have "(set (rev (filter (\<lambda>i. i \<notin> insert pieceId visited) (connectedPieces (h c))) @ toVisit)
            \<union> allConnected h ps) - insert pieceId visited
          \<subset> (set (pieceId # toVisit) \<union> allConnected h ps) - visited"
    using nv sub by auto
  then have "card ((set (rev (filter (\<lambda>i. i \<notin> insert pieceId visited) (connectedPieces (h c))) @ toVisit)
            \<union> allConnected h ps) - insert pieceId visited)
          < card ((set (pieceId # toVisit) \<union> allConnected h ps) - visited)"
    using fin by (rule psubset_card_mono[rotated])
  then show "((h, ps, insert pieceId visited,
               rev (filter (\<lambda>i. i \<notin> insert pieceId visited) (connectedPieces (h c))) @ toVisit,
               grp @ [c]),
              (h, ps, visited, pieceId # toVisit, grp))
        \<in> measures [\<lambda>(h, ps, visited, toVisit, grp).
                              card ((set toVisit \<union> allConnected h ps) - visited),
                           \<lambda>(h, ps, visited, toVisit, grp). length toVisit]"
    by simp
qed

definition getAllPiecesInGroup :: "PuzzleBoard \<Rightarrow> addr \<Rightarrow> addr list" where
  "getAllPiecesInGroup b piece =
     groupLoop (heap b) (pieces b) {pid (heap b piece)}
       (rev (connectedPieces (heap b piece))) [piece]"

definition mergeGroups :: "PuzzleBoard \<Rightarrow> addr \<Rightarrow> addr \<Rightarrow> PuzzleBoard" where
  "mergeGroups b piece1 piece2 =
     (let group1 = getAllPiecesInGroup b piece1;
          group2 = getAllPiecesInGroup b piece2;
          allPieceIds = setFromList (map (\<lambda>p. pid (heap b p)) (group1 @ group2))
      in b\<lparr>heap := fold (\<lambda>p h. h(p := (h p)\<lparr>connectedPieces := setDelete (pid (h p)) allPieceIds\<rparr>))
                      (group1 @ group2) (heap b)\<rparr>)"

definition recordLink :: "PuzzleBoard \<Rightarrow> addr \<Rightarrow> addr \<Rightarrow> PuzzleBoard" where
  \<comment> \<open>the two \<^verbatim>\<open>connectedPieces.add\<close> statements under \<^verbatim>\<open>// Connect the pieces\<close>\<close>
  "recordLink b groupPiece target =
     (let h1 = (heap b)(groupPiece := (heap b groupPiece)
                  \<lparr>connectedPieces := setAdd (pid (heap b target)) (connectedPieces (heap b groupPiece))\<rparr>);
          h2 = h1(target := (h1 target)
                  \<lparr>connectedPieces := setAdd (pid (h1 groupPiece)) (connectedPieces (h1 target))\<rparr>)
      in b\<lparr>heap := h2\<rparr>)"

definition connectPieces :: "PuzzleBoard \<Rightarrow> addr \<Rightarrow> addr \<Rightarrow> PuzzleBoard" where
  \<comment> \<open>recording the link, then \<^verbatim>\<open>this.mergeGroups(groupPiece, snapTarget.targetPiece)\<close>\<close>
  "connectPieces b groupPiece target = mergeGroups (recordLink b groupPiece target) groupPiece target"

fun clusterLoop :: "PuzzleBoard \<Rightarrow> addr list \<Rightarrow> int set \<Rightarrow> nat \<Rightarrow> nat" where
  "clusterLoop b [] visited largestSize = largestSize"
| "clusterLoop b (piece # ps) visited largestSize =
     (if pid (heap b piece) \<notin> visited then
        (let cluster = getAllPiecesInGroup b piece
         in clusterLoop b ps (visited \<union> (\<lambda>p. pid (heap b p)) ` set cluster)
              (max largestSize (length cluster)))
      else clusterLoop b ps visited largestSize)"

definition getLargestClusterSize :: "PuzzleBoard \<Rightarrow> nat" where
  "getLargestClusterSize b = clusterLoop b (pieces b) {} 0"

definition updateProgress :: "PuzzleBoard \<Rightarrow> PuzzleBoard" where
  "updateProgress b =
     (let largestClusterSize = getLargestClusterSize b;
          total = length (pieces b)
      in b\<lparr>progressReports := progressReports b @ [(largestClusterSize, total)]\<rparr>)"

subsection \<open>Placement and locking\<close>

definition isPieceCorrectlyPlaced :: "PuzzlePiece \<Rightarrow> bool" where
  "isPieceCorrectlyPlaced piece =
     (let tolerance = SNAP_DISTANCE;
          dx = px piece - fst (originalPosition piece);
          dy = py piece - snd (originalPosition piece);
          dist = sqrt (dx * dx + dy * dy)
      in dist < tolerance)"

definition isGroupCorrectlyPlaced :: "store \<Rightarrow> addr list \<Rightarrow> bool" where
  "isGroupCorrectlyPlaced h grp =
     list_all (\<lambda>p. rotation (h p) = 0 \<and> isPieceCorrectlyPlaced (h p)) grp"

definition checkAndLockCorrectlyPlacedPieces :: "PuzzleBoard \<Rightarrow> PuzzleBoard" where
  "checkAndLockCorrectlyPlacedPieces b =
     b\<lparr>heap := fold (\<lambda>p h. if \<not> isLocked (h p) \<and> rotation (h p) = 0 \<and> isPieceCorrectlyPlaced (h p)
                            then h(p := (h p)\<lparr>isLocked := True\<rparr>) else h)
                    (pieces b) (heap b)\<rparr>"

subsection \<open>Draw order\<close>

fun findIndex :: "addr list \<Rightarrow> addr \<Rightarrow> int" where
  \<comment> \<open>\<^verbatim>\<open>orderedPieces.findIndex(piece => piece === p)\<close>, which is -1 when nothing matches\<close>
  "findIndex [] p = -1"
| "findIndex (q # qs) p =
     (if q = p then 0 else (let i = findIndex qs p in if i < 0 then -1 else i + 1))"

definition bringToFront :: "PuzzleBoard \<Rightarrow> addr \<Rightarrow> PuzzleBoard" where
  "bringToFront b piece =
     (let grp = getAllPiecesInGroup b piece;
          orderedPieces = pieces b;
          remaining = filter (\<lambda>p. p \<notin> set grp) (pieces b);
          sortedGroup = sort_key (findIndex orderedPieces) grp
      in b\<lparr>pieces := remaining @ sortedGroup\<rparr>)"

subsection \<open>Group rotation and the commands on the selection\<close>

text \<open>
  \<^verbatim>\<open>rotateGroup\<close> has two loops: the first computes the centre of the group, the second
  turns every member about it. \<open>groupCenter\<close> is the first loop and \<open>rotateAbout\<close> the
  body of the second.
\<close>

definition groupCenter :: "store \<Rightarrow> addr list \<Rightarrow> point" where
  "groupCenter h grp =
     (foldl (\<lambda>acc p. acc + (px (h p) + width (h p) / 2)) 0 grp / real (length grp),
      foldl (\<lambda>acc p. acc + (py (h p) + height (h p) / 2)) 0 grp / real (length grp))"

definition rotateAbout :: "real \<Rightarrow> real \<Rightarrow> PuzzlePiece \<Rightarrow> PuzzlePiece" where
  "rotateAbout centerX centerY piece =
     (let pieceCenterX = px piece + width piece / 2;
          pieceCenterY = py piece + height piece / 2;
          dx = pieceCenterX - centerX;
          dy = pieceCenterY - centerY;
          newDx = - dy;
          newDy = dx;
          moved = piece\<lparr>px := centerX + newDx - width piece / 2,
                        py := centerY + newDy - height piece / 2\<rparr>
      in if \<not> faceUp moved then flip moved else rotate90 moved)"

definition rotateGroup :: "PuzzleBoard \<Rightarrow> addr list \<Rightarrow> PuzzleBoard" where
  "rotateGroup b grp =
     (if length grp = 0 then b
      else
        (let centerX = fst (groupCenter (heap b) grp);
             centerY = snd (groupCenter (heap b) grp)
         in b\<lparr>heap := fold (\<lambda>p h. h(p := rotateAbout centerX centerY (h p))) grp (heap b)\<rparr>))"

definition flipSelectedPiece :: "PuzzleBoard \<Rightarrow> PuzzleBoard" where
  "flipSelectedPiece b =
     (case selectedPiece b of
        None \<Rightarrow> b
      | Some sel \<Rightarrow> b\<lparr>heap := (heap b)(sel := flip (heap b sel))\<rparr>)"

definition rotateSelectedPiece :: "PuzzleBoard \<Rightarrow> PuzzleBoard" where
  "rotateSelectedPiece b =
     (case selectedPiece b of
        None \<Rightarrow> b
      | Some sel \<Rightarrow>
          if faceUp (heap b sel) then b\<lparr>heap := (heap b)(sel := rotate90 (heap b sel))\<rparr> else b)"

definition clearSelection :: "PuzzleBoard \<Rightarrow> PuzzleBoard" where
  "clearSelection b = b\<lparr>selectedPiece := None\<rparr>"

subsection \<open>Camera\<close>

definition screenToWorld :: "Camera \<Rightarrow> real \<Rightarrow> real \<Rightarrow> point" where
  "screenToWorld cam x y = ((x - offsetX cam) / scale cam, (y - offsetY cam) / scale cam)"

definition clampScale :: "real \<Rightarrow> real" where
  "clampScale v = min MAX_SCALE (max MIN_SCALE v)"

definition zoomAtScreenPoint :: "Camera \<Rightarrow> real \<Rightarrow> real \<Rightarrow> real \<Rightarrow> Camera" where
  "zoomAtScreenPoint cam screenX screenY scaleFactor =
     (let worldPoint = screenToWorld cam screenX screenY;
          newScale = clampScale (scale cam * scaleFactor)
      in if newScale = scale cam then cam
         else cam\<lparr>scale := newScale,
                  offsetX := screenX - fst worldPoint * newScale,
                  offsetY := screenY - snd worldPoint * newScale\<rparr>)"

definition resetView :: "PuzzleBoard \<Rightarrow> PuzzleBoard" where
  "resetView b = b\<lparr>camera := \<lparr>scale = 1, offsetX = 0, offsetY = 0\<rparr>\<rparr>"

definition handlePanMove :: "PuzzleBoard \<Rightarrow> real \<Rightarrow> real \<Rightarrow> PuzzleBoard" where
  "handlePanMove b screenX screenY =
     (case panLast b of
        None \<Rightarrow> b
      | Some (lastX, lastY) \<Rightarrow>
          (let deltaX = screenX - lastX;
               deltaY = screenY - lastY
           in b\<lparr>camera := (camera b)\<lparr>offsetX := offsetX (camera b) + deltaX,
                                      offsetY := offsetY (camera b) + deltaY\<rparr>,
                panLast := Some (screenX, screenY)\<rparr>))"

subsection \<open>Pointer handlers\<close>

definition handlePointerDown ::
    "PuzzleBoard \<Rightarrow> real \<Rightarrow> real \<Rightarrow> real \<Rightarrow> real \<Rightarrow> int \<Rightarrow> PuzzleBoard" where
  "handlePointerDown b x y screenX screenY pointerId =
     (if activeAnimation b then b
      else
        (let candidates =
               map (\<lambda>p. (p, length (getAllPiecesInGroup b p)))
                 (filter (\<lambda>p. \<not> isLocked (heap b p) \<and> containsPoint (heap b p) x y)
                    (rev (pieces b)));
             b1 = (case sort_key snd candidates of
                     [] \<Rightarrow> b\<lparr>selectedPiece := None\<rparr>
                   | selectedCandidate # rest \<Rightarrow>
                       (let newSelected = fst selectedCandidate
                        in if selectedPiece b = Some newSelected then b\<lparr>selectedPiece := None\<rparr>
                           else
                             (let b' = bringToFront (b\<lparr>selectedPiece := Some newSelected\<rparr>) newSelected
                              in b'\<lparr>heap := (heap b')(newSelected := (heap b' newSelected)
                                     \<lparr>dragOffset := (x - px (heap b' newSelected),
                                                     y - py (heap b' newSelected))\<rparr>)\<rparr>)));
             b2 = b1\<lparr>boardDragging := False,
                     hasMovedBeyondThreshold := False,
                     pointerDownScreenPos := Some (screenX, screenY)\<rparr>
         in if selectedPiece b2 \<noteq> None
            then b2\<lparr>dragPointerId := Some pointerId, panPointerId := None, panLast := None\<rparr>
            else b2\<lparr>dragPointerId := None, panPointerId := Some pointerId,
                    panLast := Some (screenX, screenY)\<rparr>))"

definition moveGroup :: "store \<Rightarrow> addr \<Rightarrow> addr list \<Rightarrow> real \<Rightarrow> real \<Rightarrow> store" where
  \<comment> \<open>the loop under \<^verbatim>\<open>// Move all connected pieces in the group\<close>\<close>
  "moveGroup h sel grp deltaX deltaY =
     fold (\<lambda>groupPiece h.
             if pid (h groupPiece) \<noteq> pid (h sel)
             then h(groupPiece := (h groupPiece)\<lparr>px := px (h groupPiece) + deltaX,
                                                 py := py (h groupPiece) + deltaY\<rparr>)
             else h)
       grp h"

definition handlePointerMove :: "PuzzleBoard \<Rightarrow> real \<Rightarrow> real \<Rightarrow> real \<Rightarrow> real \<Rightarrow> PuzzleBoard" where
  "handlePointerMove b x y screenX screenY =
     (if activeAnimation b then b
      else case selectedPiece b of
        None \<Rightarrow> b
      | Some sel \<Rightarrow>
          (let b1 = (case (hasMovedBeyondThreshold b, pointerDownScreenPos b) of
                       (False, Some (downX, downY)) \<Rightarrow>
                         (let dist = sqrt ((screenX - downX)\<^sup>2 + (screenY - downY)\<^sup>2)
                          in if dist > DRAG_THRESHOLD
                             then bringToFront
                                    (b\<lparr>hasMovedBeyondThreshold := True,
                                       boardDragging := True,
                                       heap := (heap b)(sel := (heap b sel)\<lparr>isDragging := True\<rparr>)\<rparr>)
                                    sel
                             else b)
                     | _ \<Rightarrow> b)
           in if boardDragging b1 then
                (let newX = x - fst (dragOffset (heap b1 sel));
                     newY = y - snd (dragOffset (heap b1 sel));
                     deltaX = newX - px (heap b1 sel);
                     deltaY = newY - py (heap b1 sel);
                     b2 = b1\<lparr>heap := (heap b1)(sel := (heap b1 sel)\<lparr>px := newX, py := newY\<rparr>)\<rparr>;
                     grp = getAllPiecesInGroup b2 sel
                 in b2\<lparr>heap := moveGroup (heap b2) sel grp deltaX deltaY\<rparr>)
              else b1))"

fun bestSnapLoop :: "PuzzleBoard \<Rightarrow> addr list \<Rightarrow> (Snap \<times> addr) option \<Rightarrow> (Snap \<times> addr) option" where
  "bestSnapLoop b [] bestSnap = bestSnap"
| "bestSnapLoop b (groupPiece # gs) bestSnap =
     (case findSnapTarget (heap b) groupPiece (pieces b)
             (px (heap b groupPiece)) (py (heap b groupPiece)) of
        None \<Rightarrow> bestSnapLoop b gs bestSnap
      | Some snapTarget \<Rightarrow>
          if (case bestSnap of
                None \<Rightarrow> True
              | Some (best, bestPiece) \<Rightarrow> distance snapTarget < distance best)
          then bestSnapLoop b gs (Some (snapTarget, groupPiece))
          else bestSnapLoop b gs bestSnap)"

definition translateGroup :: "store \<Rightarrow> addr list \<Rightarrow> real \<Rightarrow> real \<Rightarrow> store" where
  \<comment> \<open>the loop under \<^verbatim>\<open>// Move the entire dragged group to the snap position\<close>\<close>
  "translateGroup h grp deltaX deltaY =
     fold (\<lambda>p h. h(p := (h p)\<lparr>px := px (h p) + deltaX, py := py (h p) + deltaY\<rparr>)) grp h"

definition lockGroup :: "store \<Rightarrow> addr list \<Rightarrow> store" where
  "lockGroup h grp = fold (\<lambda>p h. h(p := (h p)\<lparr>isLocked := True\<rparr>)) grp h"

definition applySnap :: "PuzzleBoard \<Rightarrow> addr \<Rightarrow> addr list \<Rightarrow> Snap \<Rightarrow> addr \<Rightarrow> PuzzleBoard" where
  \<comment> \<open>the branch \<^verbatim>\<open>if (bestSnap)\<close> of \<^verbatim>\<open>handlePointerUp\<close>\<close>
  "applySnap b sel draggedGroup snapTarget groupPiece =
     (let deltaX = snapX snapTarget - px (heap b groupPiece);
          deltaY = snapY snapTarget - py (heap b groupPiece);
          b1 = b\<lparr>heap := translateGroup (heap b) draggedGroup deltaX deltaY\<rparr>;
          b2 = connectPieces b1 groupPiece (targetPiece snapTarget);
          snappedGroup = getAllPiecesInGroup b2 sel
      in if isGroupCorrectlyPlaced (heap b2) snappedGroup
         then b2\<lparr>heap := lockGroup (heap b2) snappedGroup\<rparr>
         else b2)"

definition handlePointerUp :: "PuzzleBoard \<Rightarrow> PuzzleBoard" where
  "handlePointerUp b =
     (if activeAnimation b then b
      else
        (let b1 = (case selectedPiece b of
                     None \<Rightarrow> b
                   | Some sel \<Rightarrow>
                       (let b' = b\<lparr>heap := (heap b)(sel := (heap b sel)\<lparr>isDragging := False\<rparr>)\<rparr>
                        in if hasMovedBeyondThreshold b' then
                             (let draggedGroup = getAllPiecesInGroup b' sel;
                                  b'' = (case bestSnapLoop b' draggedGroup None of
                                           Some (snapTarget, groupPiece) \<Rightarrow>
                                             applySnap b' sel draggedGroup snapTarget groupPiece
                                         | None \<Rightarrow> b')
                              in (updateProgress b'')\<lparr>selectedPiece := None\<rparr>)
                           else b'));
             b2 = updateProgress (checkAndLockCorrectlyPlacedPieces b1)
         in b2\<lparr>boardDragging := False,
                pointerDownScreenPos := None,
                hasMovedBeyondThreshold := False\<rparr>))"

subsection \<open>Entry points\<close>

definition onPointerStart :: "PuzzleBoard \<Rightarrow> real \<Rightarrow> real \<Rightarrow> int \<Rightarrow> PuzzleBoard" where
  "onPointerStart b x y pointerId =
     (let world = screenToWorld (camera b) x y
      in handlePointerDown b (fst world) (snd world) x y pointerId)"

definition onPointerMove :: "PuzzleBoard \<Rightarrow> real \<Rightarrow> real \<Rightarrow> int \<Rightarrow> PuzzleBoard" where
  "onPointerMove b x y pointerId =
     (if dragPointerId b = Some pointerId \<and> selectedPiece b \<noteq> None then
        (let world = screenToWorld (camera b) x y
         in handlePointerMove b (fst world) (snd world) x y)
      else if panPointerId b = Some pointerId then handlePanMove b x y
      else b)"

definition onPointerEnd :: "PuzzleBoard \<Rightarrow> int \<Rightarrow> PuzzleBoard" where
  "onPointerEnd b pointerId =
     (let b1 = (if dragPointerId b = Some pointerId
                then (handlePointerUp b)\<lparr>dragPointerId := None\<rparr> else b)
      in if panPointerId b1 = Some pointerId
         then b1\<lparr>panPointerId := None, panLast := None\<rparr> else b1)"

definition onDoubleTap :: "PuzzleBoard \<Rightarrow> real \<Rightarrow> real \<Rightarrow> PuzzleBoard" where
  "onDoubleTap b x y =
     (let world = screenToWorld (camera b) x y
      in case List.find (\<lambda>p. containsPoint (heap b p) (fst world) (snd world)) (rev (pieces b)) of
           None \<Rightarrow> b
         | Some piece \<Rightarrow> rotateGroup b (getAllPiecesInGroup b piece))"

definition onWheel :: "PuzzleBoard \<Rightarrow> real \<Rightarrow> real \<Rightarrow> real \<Rightarrow> PuzzleBoard" where
  "onWheel b x y deltaY =
     (let zoomIntensity = 0.0015;
          scaleFactor = exp (- deltaY * zoomIntensity)
      in b\<lparr>camera := zoomAtScreenPoint (camera b) x y scaleFactor\<rparr>)"

datatype Interaction =
    PointerStart real real int
  | PointerMove real real int
  | PointerEnd int
  | DoubleTap real real
  | Wheel real real real
  | FlipSelected
  | RotateSelected
  | ClearSelection
  | ResetView

fun interact :: "PuzzleBoard \<Rightarrow> Interaction \<Rightarrow> PuzzleBoard" where
  "interact b (PointerStart x y i) = onPointerStart b x y i"
| "interact b (PointerMove x y i) = onPointerMove b x y i"
| "interact b (PointerEnd i) = onPointerEnd b i"
| "interact b (DoubleTap x y) = onDoubleTap b x y"
| "interact b (Wheel x y d) = onWheel b x y d"
| "interact b FlipSelected = flipSelectedPiece b"
| "interact b RotateSelected = rotateSelectedPiece b"
| "interact b ClearSelection = clearSelection b"
| "interact b ResetView = resetView b"

section \<open>A two-piece puzzle\<close>

text \<open>
  The constructor of \<^verbatim>\<open>PuzzlePiece\<close>, and the two pieces that \<^verbatim>\<open>generatePuzzle\<close> makes for
  one row and two columns of a 200 by 100 image: ids 0 and 1, solved positions (0, 0)
  and (100, 0), piece 0 naming piece 1 on its right edge and piece 1 naming piece 0 on
  its left edge. Both are face-up and unrotated, and lie away from their solved
  positions.
\<close>

definition newPiece :: "int \<Rightarrow> real \<Rightarrow> real \<Rightarrow> real \<Rightarrow> real \<Rightarrow> PuzzlePiece" where
  "newPiece i x y w h =
     \<lparr>pid = i, px = x, py = y, width = w, height = h, rotation = 0, faceUp = False,
      connections = [], isDragging = False, dragOffset = (0, 0), isLocked = False,
      originalPosition = (x, y), connectedPieces = []\<rparr>"

definition pieceA :: PuzzlePiece where
  "pieceA = (newPiece 0 200 200 100 100)
     \<lparr>originalPosition := (0, 0), faceUp := True,
      connections := [None, Some \<lparr>edge = EdgeRight, ctype = Some Tab,
                                  matingPieceId = Some 1, matingEdge = Some EdgeLeft\<rparr>]\<rparr>"

definition pieceB :: PuzzlePiece where
  "pieceB = (newPiece 1 500 200 100 100)
     \<lparr>originalPosition := (100, 0), faceUp := True,
      connections := [None, None, None,
                      Some \<lparr>edge = EdgeLeft, ctype = Some Blank,
                            matingPieceId = Some 0, matingEdge = Some EdgeRight\<rparr>]\<rparr>"

definition twoPieces :: store where
  \<comment> \<open>piece 0 at address 0, piece 1 at every other address\<close>
  "twoPieces = (\<lambda>a. if a = 0 then pieceA else pieceB)"

definition twoPiecesTurned :: store where
  \<comment> \<open>as \<open>twoPieces\<close>, with piece 0 turned by a quarter\<close>
  "twoPiecesTurned = (\<lambda>a. if a = 0 then pieceA\<lparr>rotation := 90\<rparr> else pieceB)"

definition twoPiecesDown :: store where
  \<comment> \<open>as \<open>twoPieces\<close>, with piece 1 face-down\<close>
  "twoPiecesDown = (\<lambda>a. if a = 0 then pieceA else pieceB\<lparr>faceUp := False\<rparr>)"

text \<open>A board as its constructor leaves it, holding the pieces at addresses 0 and 1.\<close>

definition boardOf :: "store \<Rightarrow> PuzzleBoard" where
  "boardOf h =
     \<lparr>heap = h, pieces = [0, 1], selectedPiece = None, boardDragging = False,
      pointerDownScreenPos = None, hasMovedBeyondThreshold = False,
      camera = \<lparr>scale = 1, offsetX = 0, offsetY = 0\<rparr>,
      dragPointerId = None, panPointerId = None, panLast = None,
      activeAnimation = False, progressReports = []\<rparr>"

text \<open>
  One row and three columns: a third piece with id 2 and solved position (200, 0), and
  the middle piece naming both neighbours.
\<close>

definition pieceMid :: PuzzlePiece where
  "pieceMid = pieceB
     \<lparr>connections := [None,
                      Some \<lparr>edge = EdgeRight, ctype = Some Tab,
                            matingPieceId = Some 2, matingEdge = Some EdgeLeft\<rparr>,
                      None,
                      Some \<lparr>edge = EdgeLeft, ctype = Some Blank,
                            matingPieceId = Some 0, matingEdge = Some EdgeRight\<rparr>]\<rparr>"

definition pieceC :: PuzzlePiece where
  "pieceC = (newPiece 2 700 200 100 100)
     \<lparr>originalPosition := (200, 0), faceUp := True,
      connections := [None, None, None,
                      Some \<lparr>edge = EdgeLeft, ctype = Some Blank,
                            matingPieceId = Some 1, matingEdge = Some EdgeRight\<rparr>]\<rparr>"

definition threePieces :: store where
  "threePieces = (\<lambda>a. if a = 0 then pieceA else if a = 1 then pieceMid else pieceC)"

definition boardOfThree :: PuzzleBoard where
  "boardOfThree = (boardOf threePieces)\<lparr>pieces := [0, 1, 2]\<rparr>"


text \<open>
  Three runs of interactions on the two pieces, with the camera at its initial
  setting, so that screen and world coordinates agree. The first drags piece 0 to
  (-10, 0), ten units from its solved position. The second double-taps each piece,
  then drags piece 1 to (-10, 105), five units from where it mates with the turned
  piece 0. The third presses on piece 1 and drags it 100 units to the right.
\<close>

definition lockingRun :: "Interaction list" where
  "lockingRun = [PointerStart 250 250 1, PointerMove 40 50 1, PointerEnd 1]"

definition joiningRun :: "Interaction list" where
  "joiningRun = [DoubleTap 40 50, DoubleTap 550 250,
                 PointerStart 550 250 2, PointerMove 40 155 2, PointerEnd 2]"

definition draggingRun :: "Interaction list" where
  "draggingRun = [PointerStart 40 150 3, PointerMove 140 150 3]"

section \<open>The piece graph\<close>

text \<open>
  The notions the statements below are about. The piece graph has the pieces of the
  board as nodes and an edge from \<open>a\<close> to \<open>c\<close> when the connected-set of \<open>a\<close> holds the id
  of \<open>c\<close>; the component of a piece is what is reachable from it. The generator gives
  every piece its own id (\<^verbatim>\<open>row * cols + col\<close>), which \<open>uniqueIds\<close> records.
\<close>

definition uniqueIds :: "PuzzleBoard \<Rightarrow> bool" where
  "uniqueIds b = distinct (map (\<lambda>a. pid (heap b a)) (pieces b))"

definition pieceGraph :: "PuzzleBoard \<Rightarrow> (addr \<times> addr) set" where
  "pieceGraph b =
     {(a, c). c \<in> set (pieces b) \<and> pid (heap b c) \<in> set (connectedPieces (heap b a))}"

definition component :: "PuzzleBoard \<Rightarrow> addr \<Rightarrow> addr set" where
  "component b a = (pieceGraph b)\<^sup>* `` {a}"

definition symmetricConnectivity :: "PuzzleBoard \<Rightarrow> bool" where
  "symmetricConnectivity b =
     (\<forall>a \<in> set (pieces b). \<forall>c \<in> set (pieces b).
        pid (heap b c) \<in> set (connectedPieces (heap b a))
          \<longleftrightarrow> pid (heap b a) \<in> set (connectedPieces (heap b c)))"

text \<open>
  What the handlers rely on: the pieces have their own ids and the selected piece, if
  there is one, is a piece of the board. \<open>connectivityOf\<close> is the part of the store that
  decides the piece graph.
\<close>

definition boardInv :: "PuzzleBoard \<Rightarrow> bool" where
  "boardInv b = (uniqueIds b \<and> (\<forall>s. selectedPiece b = Some s \<longrightarrow> s \<in> set (pieces b)))"

definition connectivityOf :: "store \<Rightarrow> addr \<Rightarrow> int \<times> int list" where
  "connectivityOf h a = (pid (h a), connectedPieces (h a))"

text \<open>
  \<open>keepsGraph b b'\<close>: going from \<open>b\<close> to \<open>b'\<close> changed neither an id nor a connected-set,
  kept the pieces of the board (their draw order may differ) and left the selection
  on a piece of the board.
\<close>

definition keepsGraph :: "PuzzleBoard \<Rightarrow> PuzzleBoard \<Rightarrow> bool" where
  "keepsGraph b b' =
     (connectivityOf (heap b') = connectivityOf (heap b)
      \<and> mset (pieces b') = mset (pieces b)
      \<and> (\<forall>s. selectedPiece b' = Some s \<longrightarrow> s \<in> set (pieces b)))"




text \<open>A run of connections, each made as \<^verbatim>\<open>handlePointerUp\<close> makes it on a snap.\<close>

definition connectAll :: "PuzzleBoard \<Rightarrow> (addr \<times> addr) list \<Rightarrow> PuzzleBoard" where
  "connectAll b cs = fold (\<lambda>(a, c) b'. connectPieces b' a c) cs b"

section \<open>Properties of snap detection\<close>

lemma hypot_less_iff: "0 < c \<Longrightarrow> hypot a b < c \<longleftrightarrow> a * a + b * b < c * c"
proof -
  assume c: "0 < c"
  have "sqrt (a * a + b * b) < c \<longleftrightarrow> sqrt (a * a + b * b) < sqrt (c * c)"
    using c by simp
  also have "\<dots> \<longleftrightarrow> a * a + b * b < c * c"
    by (rule real_sqrt_less_iff)
  finally show ?thesis by (simp add: hypot_def)
qed

lemma snapLoop_skip:
  "\<not> isSnapCandidate h d x y p \<Longrightarrow> faceUp (h d) \<Longrightarrow>
     snapLoop h d x y (p # ps) closest = snapLoop h d x y ps closest"
  by (cases "getConnection (h d) (h p)") (auto simp: isSnapCandidate_def Let_def)

lemma snapLoop_take:
  "isSnapCandidate h d x y p \<Longrightarrow> getConnection (h d) (h p) = Some c \<Longrightarrow>
     snapLoop h d x y (p # ps) closest
       = snapLoop h d x y ps
           (if (case closest of None \<Rightarrow> True | Some k \<Rightarrow> distance (snapOf h d x y p c) < distance k)
            then Some (snapOf h d x y p c) else closest)"
  by (simp add: isSnapCandidate_def Let_def)

declare snapLoop.simps(2) [simp del]

lemma snapLoop_unchanged:
  "\<forall>p\<in>set ps. \<not> isSnapCandidate h d x y p \<Longrightarrow> faceUp (h d) \<Longrightarrow> snapLoop h d x y ps closest = closest"
proof (induction ps)
  case Nil
  then show ?case by simp
next
  case (Cons p ps)
  then show ?case using snapLoop_skip[of h d x y p ps closest] by simp
qed

lemma targetPiece_snapOf: "targetPiece (snapOf h d x y p c) = p"
  by (simp add: snapOf_def Let_def)

lemma snapLoop_result:
  "snapLoop h d x y ps closest = Some r \<Longrightarrow> faceUp (h d) \<Longrightarrow>
     closest = Some r \<or>
     (targetPiece r \<in> set ps \<and> isSnapCandidate h d x y (targetPiece r)
      \<and> (\<exists>c. getConnection (h d) (h (targetPiece r)) = Some c \<and> r = snapOf h d x y (targetPiece r) c))"
proof (induction ps arbitrary: closest)
  case Nil
  then show ?case by simp
next
  case (Cons p ps)
  show ?case
  proof (cases "isSnapCandidate h d x y p")
    case False
    then have "snapLoop h d x y ps closest = Some r"
      using Cons.prems snapLoop_skip[of h d x y p ps closest] by simp
    from Cons.IH[OF this Cons.prems(2)] show ?thesis by auto
  next
    case True
    then obtain c where c: "getConnection (h d) (h p) = Some c"
      by (auto simp: isSnapCandidate_def split: option.splits)
    let ?next = "if (case closest of None \<Rightarrow> True | Some k \<Rightarrow> distance (snapOf h d x y p c) < distance k)
             then Some (snapOf h d x y p c) else closest"
    have "snapLoop h d x y ps ?next = Some r"
      using Cons.prems(1) snapLoop_take[OF True c, of ps closest] by simp
    from Cons.IH[OF this Cons.prems(2)]
    have "?next = Some r \<or>
     (targetPiece r \<in> set ps \<and> isSnapCandidate h d x y (targetPiece r)
      \<and> (\<exists>c. getConnection (h d) (h (targetPiece r)) = Some c \<and> r = snapOf h d x y (targetPiece r) c))" .
    then show ?thesis
    proof
      assume n: "?next = Some r"
      show ?thesis
      proof (cases "closest = Some r")
        case True
        then show ?thesis by simp
      next
        case False
        with n have "r = snapOf h d x y p c" by (auto split: if_splits)
        then show ?thesis using True c by (simp add: targetPiece_snapOf)
      qed
    next
      assume "targetPiece r \<in> set ps \<and> isSnapCandidate h d x y (targetPiece r)
      \<and> (\<exists>c. getConnection (h d) (h (targetPiece r)) = Some c \<and> r = snapOf h d x y (targetPiece r) c)"
      then show ?thesis by simp
    qed
  qed
qed


lemma snapLoop_unique:
  assumes cand: "isSnapCandidate h d x y a" and conn: "getConnection (h d) (h a) = Some c"
  shows "\<forall>p\<in>set ps. isSnapCandidate h d x y p \<longrightarrow> p = a \<Longrightarrow>
         closest = None \<or> closest = Some (snapOf h d x y a c) \<Longrightarrow>
         snapLoop h d x y ps closest = (if a \<in> set ps then Some (snapOf h d x y a c) else closest)"
proof (induction ps arbitrary: closest)
  case Nil
  then show ?case by simp
next
  case (Cons p ps)
  have fu: "faceUp (h d)" using cand by (simp add: isSnapCandidate_def)
  have rest: "\<forall>q\<in>set ps. isSnapCandidate h d x y q \<longrightarrow> q = a"
    using Cons.prems(1) by simp
  show ?case
  proof (cases "p = a")
    case True
    have pick: "(if (case closest of None \<Rightarrow> True | Some k \<Rightarrow> distance (snapOf h d x y a c) < distance k)
            then Some (snapOf h d x y a c) else closest) = Some (snapOf h d x y a c)"
    proof (cases closest)
      case None
      then show ?thesis by simp
    next
      case (Some k)
      with Cons.prems(2) have "k = snapOf h d x y a c" by simp
      with Some show ?thesis by simp
    qed
    have step: "snapLoop h d x y (a # ps) closest = snapLoop h d x y ps (Some (snapOf h d x y a c))"
      using snapLoop_take[OF cand conn, of ps closest] by (simp only: pick)
    have "snapLoop h d x y ps (Some (snapOf h d x y a c))
            = (if a \<in> set ps then Some (snapOf h d x y a c) else Some (snapOf h d x y a c))"
      by (rule Cons.IH[OF rest]) simp
    then have "snapLoop h d x y (a # ps) closest = Some (snapOf h d x y a c)"
      using step by simp
    then show ?thesis using True by simp
  next
    case False
    have nc: "\<not> isSnapCandidate h d x y p"
      using Cons.prems(1) False by auto
    have step: "snapLoop h d x y (p # ps) closest = snapLoop h d x y ps closest"
      using nc fu by (rule snapLoop_skip)
    have "snapLoop h d x y ps closest = (if a \<in> set ps then Some (snapOf h d x y a c) else closest)"
      by (rule Cons.IH[OF rest Cons.prems(2)])
    then show ?thesis using step False by simp
  qed
qed


lemma findSnapTarget_single:
  "findSnapTarget h d [p] x y \<noteq> None \<longleftrightarrow> isSnapCandidate h d x y p"
proof (cases "faceUp (h d)")
  case False
  then show ?thesis by (simp add: findSnapTarget_def isSnapCandidate_def)
next
  case True
  show ?thesis
  proof (cases "isSnapCandidate h d x y p")
    case False
    then show ?thesis using True snapLoop_skip[of h d x y p "[]" None]
      by (simp add: findSnapTarget_def)
  next
    case c: True
    then obtain k where "getConnection (h d) (h p) = Some k"
      by (auto simp: isSnapCandidate_def split: option.splits)
    then show ?thesis using True c snapLoop_take[of h d x y p k "[]" None]
      by (simp add: findSnapTarget_def)
  qed
qed

text \<open>
  Claim C5. A face-down dragged piece never snaps: \<^verbatim>\<open>findSnapTarget\<close> returns \<^verbatim>\<open>null\<close>
  whatever the other arguments are. The function has no failing path: on every input
  its result is either \<^verbatim>\<open>null\<close> or a snap whose target is one of the pieces it was given.
\<close>
theorem findSnapTarget_face_down_is_null:
  "(\<not> faceUp (h d) \<longrightarrow> findSnapTarget h d ps x y = None)
   \<and> (findSnapTarget h d ps x y = None
        \<or> (\<exists>r. findSnapTarget h d ps x y = Some r \<and> targetPiece r \<in> set ps))"
proof
  show "\<not> faceUp (h d) \<longrightarrow> findSnapTarget h d ps x y = None"
    by (simp add: findSnapTarget_def)
next
  show "findSnapTarget h d ps x y = None
        \<or> (\<exists>r. findSnapTarget h d ps x y = Some r \<and> targetPiece r \<in> set ps)"
  proof (cases "findSnapTarget h d ps x y")
    case None
    then show ?thesis by simp
  next
    case (Some r)
    then have fu: "faceUp (h d)" and "snapLoop h d x y ps None = Some r"
      by (auto simp: findSnapTarget_def split: if_splits)
    from snapLoop_result[OF this(2) fu] have "targetPiece r \<in> set ps" by simp
    with Some show ?thesis by simp
  qed
qed

theorem findSnapTarget_face_down_witness:
  "\<not> faceUp (twoPiecesDown 1) \<and> findSnapTarget twoPiecesDown 1 [0, 1] 300 205 = None"
  using findSnapTarget_face_down_is_null[of twoPiecesDown 1 "[0, 1]" 300 205]
  by (simp add: twoPiecesDown_def pieceB_def newPiece_def)

text \<open>
  Claim C10. A piece whose rotation differs from the rotation of the dragged piece is
  skipped: whenever \<^verbatim>\<open>findSnapTarget\<close> returns a target, the target has exactly the
  rotation of the dragged piece.
\<close>
theorem findSnapTarget_shares_rotation:
  "findSnapTarget h d ps x y = Some r \<Longrightarrow> rotation (h (targetPiece r)) = rotation (h d)"
proof -
  assume a: "findSnapTarget h d ps x y = Some r"
  then have fu: "faceUp (h d)" and "snapLoop h d x y ps None = Some r"
    by (auto simp: findSnapTarget_def split: if_splits)
  from snapLoop_result[OF this(2) fu] have "isSnapCandidate h d x y (targetPiece r)" by simp
  then show ?thesis by (simp add: isSnapCandidate_def)
qed

lemma conn_B_A: "getConnection pieceB pieceA
   = Some \<lparr>edge = EdgeLeft, ctype = Some Blank, matingPieceId = Some 0, matingEdge = Some EdgeRight\<rparr>"
  by (simp add: getConnection_def pieceA_def pieceB_def newPiece_def)

lemma expected_B_A: "expectedCenter pieceB pieceA = (350, 250)"
  by (simp add: expectedCenter_def rotateVector_def pieceA_def pieceB_def newPiece_def Let_def)

lemma cand_example: "isSnapCandidate twoPieces 1 300 205 0"
  by (simp add: isSnapCandidate_def twoPieces_def conn_B_A snapOf_def Let_def expected_B_A
        hypot_less_iff SNAP_DISTANCE_def)
     (simp add: pieceA_def pieceB_def newPiece_def)

lemma find_example: "findSnapTarget twoPieces 1 [0, 1] 300 205
   = Some (snapOf twoPieces 1 300 205 0
            \<lparr>edge = EdgeLeft, ctype = Some Blank, matingPieceId = Some 0, matingEdge = Some EdgeRight\<rparr>)"
proof -
  have c: "getConnection (twoPieces 1) (twoPieces 0) =
     Some \<lparr>edge = EdgeLeft, ctype = Some Blank, matingPieceId = Some 0, matingEdge = Some EdgeRight\<rparr>"
    by (simp add: twoPieces_def conn_B_A)
  have n1: "\<not> isSnapCandidate twoPieces 1 300 205 1"
    by (simp add: isSnapCandidate_def)
  have fu: "faceUp (twoPieces 1)" by (simp add: twoPieces_def pieceB_def newPiece_def)
  have "snapLoop twoPieces 1 300 205 [0, 1] None
      = (if (0::nat) \<in> set [0, 1] then Some (snapOf twoPieces 1 300 205 0
            \<lparr>edge = EdgeLeft, ctype = Some Blank, matingPieceId = Some 0, matingEdge = Some EdgeRight\<rparr>) else None)"
    by (rule snapLoop_unique[OF cand_example c]) (use n1 in auto)
  then show ?thesis using fu by (simp add: findSnapTarget_def)
qed

theorem findSnapTarget_shares_rotation_witness:
  "findSnapTarget twoPieces 1 [0, 1] 300 205 \<noteq> None
   \<and> rotation (twoPieces (targetPiece (the (findSnapTarget twoPieces 1 [0, 1] 300 205))))
       = rotation (twoPieces 1)"
  using findSnapTarget_shares_rotation[OF find_example] unfolding find_example by simp

lemma snapLoop_mono:
  "faceUp (h d) \<Longrightarrow> \<exists>r. snapLoop h d x y ps (Some k) = Some r \<and> distance r \<le> distance k"
proof (induction ps arbitrary: k)
  case Nil
  then show ?case by simp
next
  case (Cons p ps)
  show ?case
  proof (cases "isSnapCandidate h d x y p")
    case False
    have "snapLoop h d x y (p # ps) (Some k) = snapLoop h d x y ps (Some k)"
      using False Cons.prems by (rule snapLoop_skip)
    then show ?thesis using Cons.IH[OF Cons.prems, of k] by simp
  next
    case True
    then obtain c where c: "getConnection (h d) (h p) = Some c"
      by (auto simp: isSnapCandidate_def split: option.splits)
    let ?n = "if distance (snapOf h d x y p c) < distance k then snapOf h d x y p c else k"
    have step: "snapLoop h d x y (p # ps) (Some k) = snapLoop h d x y ps (Some ?n)"
      using snapLoop_take[OF True c, of ps "Some k"] by simp
    from Cons.IH[OF Cons.prems, of ?n] obtain r
      where r: "snapLoop h d x y ps (Some ?n) = Some r" "distance r \<le> distance ?n" by blast
    have "distance ?n \<le> distance k" by simp
    with r step show ?thesis by auto
  qed
qed

lemma snapLoop_min:
  assumes cand: "isSnapCandidate h d x y a" and conn: "getConnection (h d) (h a) = Some c"
  shows "a \<in> set ps \<Longrightarrow>
         \<exists>r. snapLoop h d x y ps closest = Some r \<and> distance r \<le> distance (snapOf h d x y a c)"
proof (induction ps arbitrary: closest)
  case Nil
  then show ?case by simp
next
  case (Cons p ps)
  have fu: "faceUp (h d)" using cand by (simp add: isSnapCandidate_def)
  show ?case
  proof (cases "p = a")
    case True
    let ?n = "if (case closest of None \<Rightarrow> True | Some k \<Rightarrow> distance (snapOf h d x y a c) < distance k)
            then Some (snapOf h d x y a c) else closest"
    have step: "snapLoop h d x y (p # ps) closest = snapLoop h d x y ps ?n"
      using snapLoop_take[OF cand conn, of ps closest] True by simp
    have "\<exists>k. ?n = Some k \<and> distance k \<le> distance (snapOf h d x y a c)"
    proof (cases closest)
      case None
      then show ?thesis by simp
    next
      case (Some k0)
      show ?thesis
      proof (cases "distance (snapOf h d x y a c) < distance k0")
        case True
        with Some show ?thesis by simp
      next
        case False
        with Some show ?thesis by simp
      qed
    qed
    then obtain k where k: "?n = Some k" "distance k \<le> distance (snapOf h d x y a c)"
      by blast
    from snapLoop_mono[of h d x y ps k] fu obtain r
      where "snapLoop h d x y ps (Some k) = Some r" "distance r \<le> distance k" by blast
    with k step show ?thesis by auto
  next
    case False
    with Cons.prems have ain: "a \<in> set ps" by simp
    show ?thesis
    proof (cases "isSnapCandidate h d x y p")
      case False
      have "snapLoop h d x y (p # ps) closest = snapLoop h d x y ps closest"
        using False fu by (rule snapLoop_skip)
      then show ?thesis using Cons.IH[OF ain, of closest] by simp
    next
      case True
      then obtain c' where c': "getConnection (h d) (h p) = Some c'"
        by (auto simp: isSnapCandidate_def split: option.splits)
      show ?thesis
        using snapLoop_take[OF True c', of ps closest] Cons.IH[OF ain] by simp
    qed
  qed
qed

lemma snapLoop_single:
  "isSnapCandidate h d x y p \<Longrightarrow> getConnection (h d) (h p) = Some c \<Longrightarrow>
     snapLoop h d x y [p] None = Some (snapOf h d x y p c)"
  using snapLoop_take[of h d x y p c "[]" None] by simp

text \<open>
  Claim C3, as amended. Let the dragged piece be face-up and let \<open>p\<close> be another
  face-up piece that is not in the dragged piece's connected-set, that the dragged piece
  names in a connection slot, and that has the rotation of the dragged piece. Then
  \<^verbatim>\<open>findSnapTarget\<close> takes as expected centre the current centre of \<open>p\<close> plus the
  solved-position offset between the two centres rotated by the dragged piece's
  rotation, and it accepts \<open>p\<close> exactly when the Euclidean distance from the proposed
  centre of the dragged piece to that expected centre is strictly below 30; the
  snap position is the expected centre moved back by half the dragged piece's size.
  Without the condition on the rotation the statement fails: the counterexample below
  has a named, face-up, unconnected neighbour at distance 5 that is not accepted.
\<close>
theorem findSnapTarget_expected_center:
  assumes "faceUp (h d)" and "pid (h p) \<noteq> pid (h d)"
    and "pid (h p) \<notin> set (connectedPieces (h d))" and "faceUp (h p)"
    and "rotation (h p) = rotation (h d)" and "getConnection (h d) (h p) = Some c"
  shows "findSnapTarget h d [p] x y =
     (let \<theta> = rotation (h d) * pi / 180;
          ox = (fst (originalPosition (h d)) + width (h d) / 2)
                 - (fst (originalPosition (h p)) + width (h p) / 2);
          oy = (snd (originalPosition (h d)) + height (h d) / 2)
                 - (snd (originalPosition (h p)) + height (h p) / 2);
          ex = (px (h p) + width (h p) / 2) + (ox * cos \<theta> - oy * sin \<theta>);
          ey = (py (h p) + height (h p) / 2) + (ox * sin \<theta> + oy * cos \<theta>);
          dist = sqrt ((x + width (h d) / 2 - ex)\<^sup>2 + (y + height (h d) / 2 - ey)\<^sup>2)
      in if dist < 30
         then Some \<lparr>targetPiece = p, snapX = ex - width (h d) / 2, snapY = ey - height (h d) / 2,
                    connection = c, distance = dist\<rparr>
         else None)"
proof (cases "isSnapCandidate h d x y p")
  case True
  have "findSnapTarget h d [p] x y = Some (snapOf h d x y p c)"
    using assms(1) snapLoop_single[OF True assms(6)] by (simp add: findSnapTarget_def)
  moreover have "distance (snapOf h d x y p c) < 30"
    using True assms(6) by (simp add: isSnapCandidate_def SNAP_DISTANCE_def)
  ultimately show ?thesis
    by (simp add: snapOf_def expectedCenter_def rotateVector_def hypot_def Let_def power2_eq_square)
next
  case False
  have "findSnapTarget h d [p] x y = None"
    using assms(1) snapLoop_skip[OF False assms(1), of "[]" None] by (simp add: findSnapTarget_def)
  moreover have "\<not> distance (snapOf h d x y p c) < 30"
    using False assms by (simp add: isSnapCandidate_def SNAP_DISTANCE_def)
  ultimately show ?thesis
    by (simp add: snapOf_def expectedCenter_def rotateVector_def hypot_def Let_def power2_eq_square)
qed

lemma sqrt_25: "sqrt 25 = 5"
  by (rule real_sqrt_unique) simp_all

theorem findSnapTarget_expected_center_witness:
  "faceUp (twoPieces 1) \<and> pid (twoPieces 0) \<noteq> pid (twoPieces 1)
   \<and> pid (twoPieces 0) \<notin> set (connectedPieces (twoPieces 1)) \<and> faceUp (twoPieces 0)
   \<and> rotation (twoPieces 0) = rotation (twoPieces 1)
   \<and> getConnection (twoPieces 1) (twoPieces 0)
        = Some \<lparr>edge = EdgeLeft, ctype = Some Blank, matingPieceId = Some 0, matingEdge = Some EdgeRight\<rparr>
   \<and> findSnapTarget twoPieces 1 [0] 300 205
        = Some \<lparr>targetPiece = 0, snapX = 300, snapY = 200,
                connection = \<lparr>edge = EdgeLeft, ctype = Some Blank, matingPieceId = Some 0,
                               matingEdge = Some EdgeRight\<rparr>,
                distance = 5\<rparr>"
proof -
  have hyps: "faceUp (twoPieces 1)" "pid (twoPieces 0) \<noteq> pid (twoPieces 1)"
    "pid (twoPieces 0) \<notin> set (connectedPieces (twoPieces 1))" "faceUp (twoPieces 0)"
    "rotation (twoPieces 0) = rotation (twoPieces 1)"
    "getConnection (twoPieces 1) (twoPieces 0)
        = Some \<lparr>edge = EdgeLeft, ctype = Some Blank, matingPieceId = Some 0, matingEdge = Some EdgeRight\<rparr>"
    by (simp_all add: twoPieces_def conn_B_A) (simp_all add: pieceA_def pieceB_def newPiece_def)
  show ?thesis
    using hyps findSnapTarget_expected_center[OF hyps, of 300 205]
    by (simp add: twoPieces_def pieceA_def pieceB_def newPiece_def Let_def sqrt_25)
qed

theorem findSnapTarget_rotation_guard_counterexample:
  "faceUp (twoPiecesTurned 1) \<and> pid (twoPiecesTurned 0) \<noteq> pid (twoPiecesTurned 1)
   \<and> pid (twoPiecesTurned 0) \<notin> set (connectedPieces (twoPiecesTurned 1))
   \<and> faceUp (twoPiecesTurned 0)
   \<and> getConnection (twoPiecesTurned 1) (twoPiecesTurned 0)
        = Some \<lparr>edge = EdgeLeft, ctype = Some Blank, matingPieceId = Some 0, matingEdge = Some EdgeRight\<rparr>
   \<and> expectedCenter (twoPiecesTurned 1) (twoPiecesTurned 0) = (350, 250)
   \<and> hypot (300 + width (twoPiecesTurned 1) / 2 - 350) (205 + height (twoPiecesTurned 1) / 2 - 250)
        < SNAP_DISTANCE
   \<and> findSnapTarget twoPiecesTurned 1 [0] 300 205 = None"
proof -
  have "\<not> isSnapCandidate twoPiecesTurned 1 300 205 0"
    by (simp add: isSnapCandidate_def twoPiecesTurned_def pieceA_def pieceB_def newPiece_def)
  then have "findSnapTarget twoPiecesTurned 1 [0] 300 205 = None"
    using findSnapTarget_single[of twoPiecesTurned 1 0 300 205] by simp
  then show ?thesis
    by (simp add: twoPiecesTurned_def hypot_less_iff SNAP_DISTANCE_def)
       (simp add: getConnection_def expectedCenter_def rotateVector_def pieceA_def pieceB_def newPiece_def Let_def)
qed

text \<open>
  Claim C4. If exactly one piece of the list is an accepted candidate within the
  threshold, \<^verbatim>\<open>findSnapTarget\<close> returns that piece for every permutation of the list:
  the result does not depend on the order in which the pieces are scanned.
\<close>
theorem findSnapTarget_order_independent:
  assumes "a \<in> set ps" and "isSnapCandidate h d x y a"
    and "\<forall>p\<in>set ps. isSnapCandidate h d x y p \<longrightarrow> p = a"
    and "mset ps' = mset ps"
  shows "findSnapTarget h d ps' x y = findSnapTarget h d ps x y
         \<and> (\<exists>r. findSnapTarget h d ps' x y = Some r \<and> targetPiece r = a)"
proof -
  obtain c where c: "getConnection (h d) (h a) = Some c"
    using assms(2) by (auto simp: isSnapCandidate_def split: option.splits)
  have fu: "faceUp (h d)" using assms(2) by (simp add: isSnapCandidate_def)
  have seteq: "set ps' = set ps" using assms(4) by (rule mset_eq_setD)
  have r1: "snapLoop h d x y ps None = Some (snapOf h d x y a c)"
    using snapLoop_unique[OF assms(2) c assms(3), of None] assms(1) by simp
  have "\<forall>p\<in>set ps'. isSnapCandidate h d x y p \<longrightarrow> p = a"
    using assms(3) seteq by simp
  then have r2: "snapLoop h d x y ps' None = Some (snapOf h d x y a c)"
    using snapLoop_unique[OF assms(2) c, of ps' None] assms(1) seteq by simp
  show ?thesis using r1 r2 fu by (simp add: findSnapTarget_def targetPiece_snapOf)
qed

theorem findSnapTarget_order_independent_witness:
  "(0::nat) \<in> set [0, 1] \<and> isSnapCandidate twoPieces 1 300 205 0
   \<and> \<not> isSnapCandidate twoPieces 1 300 205 1
   \<and> mset [1, 0::nat] = mset [0, 1]
   \<and> findSnapTarget twoPieces 1 [1, 0] 300 205 = findSnapTarget twoPieces 1 [0, 1] 300 205
   \<and> targetPiece (the (findSnapTarget twoPieces 1 [1, 0] 300 205)) = 0"
proof -
  have n1: "\<not> isSnapCandidate twoPieces 1 300 205 1"
    by (simp add: isSnapCandidate_def)
  have h1: "(0::nat) \<in> set [0, 1]" by simp
  have h3: "\<forall>p\<in>set [0, 1]. isSnapCandidate twoPieces 1 300 205 p \<longrightarrow> p = 0"
    using n1 by auto
  have h4: "mset [1, 0::nat] = mset [0, 1]" by simp
  from findSnapTarget_order_independent[OF h1 cand_example h3 h4]
  obtain r where eq: "findSnapTarget twoPieces 1 [1, 0] 300 205 = findSnapTarget twoPieces 1 [0, 1] 300 205"
    and r: "findSnapTarget twoPieces 1 [1, 0] 300 205 = Some r" "targetPiece r = 0"
    by blast
  have "targetPiece (the (findSnapTarget twoPieces 1 [1, 0] 300 205)) = 0"
    unfolding r(1) using r(2) by simp
  then show ?thesis using h1 cand_example n1 h4 eq by blast
qed

section \<open>Properties of the camera\<close>

lemma clampScale_range: "MIN_SCALE \<le> clampScale v \<and> clampScale v \<le> MAX_SCALE"
  by (simp add: clampScale_def MIN_SCALE_def MAX_SCALE_def)

text \<open>
  Claim C9. \<^verbatim>\<open>zoomAtScreenPoint(x, y, factor)\<close> leaves the camera with the scale
  \<open>clampScale (scale * factor)\<close>, which lies in [\<open>MIN_SCALE\<close>, \<open>MAX_SCALE\<close>], and with an
  offset under which the world point that was under the screen point (x, y) before the
  zoom is under (x, y) after it. The camera scale is positive before the call, as it is
  for a scale in the clamped range.
\<close>
theorem zoomAtScreenPoint_keeps_anchor:
  assumes "0 < scale cam"
  shows "scale (zoomAtScreenPoint cam x y f) = clampScale (scale cam * f)
     \<and> MIN_SCALE \<le> scale (zoomAtScreenPoint cam x y f)
     \<and> scale (zoomAtScreenPoint cam x y f) \<le> MAX_SCALE
     \<and> screenToWorld (zoomAtScreenPoint cam x y f) x y = screenToWorld cam x y
     \<and> fst (screenToWorld cam x y) * scale (zoomAtScreenPoint cam x y f)
          + offsetX (zoomAtScreenPoint cam x y f) = x
     \<and> snd (screenToWorld cam x y) * scale (zoomAtScreenPoint cam x y f)
          + offsetY (zoomAtScreenPoint cam x y f) = y"
proof -
  have sc: "scale (zoomAtScreenPoint cam x y f) = clampScale (scale cam * f)"
    by (simp add: zoomAtScreenPoint_def Let_def)
  have pos: "0 < clampScale (scale cam * f)"
    using clampScale_range[of "scale cam * f"] by (simp add: MIN_SCALE_def)
  have w: "screenToWorld (zoomAtScreenPoint cam x y f) x y = screenToWorld cam x y"
    using pos by (simp add: zoomAtScreenPoint_def Let_def screenToWorld_def)
  have bx: "fst (screenToWorld cam x y) * scale (zoomAtScreenPoint cam x y f)
          + offsetX (zoomAtScreenPoint cam x y f) = x"
    using assms by (simp add: zoomAtScreenPoint_def Let_def screenToWorld_def)
  have by': "snd (screenToWorld cam x y) * scale (zoomAtScreenPoint cam x y f)
          + offsetY (zoomAtScreenPoint cam x y f) = y"
    using assms by (simp add: zoomAtScreenPoint_def Let_def screenToWorld_def)
  show ?thesis using sc clampScale_range[of "scale cam * f"] w bx by' by simp
qed

theorem zoomAtScreenPoint_keeps_anchor_witness:
  "(0::real) < scale \<lparr>scale = 1, offsetX = 10, offsetY = 20\<rparr>
   \<and> zoomAtScreenPoint \<lparr>scale = 1, offsetX = 10, offsetY = 20\<rparr> 110 70 2
        = \<lparr>scale = 2, offsetX = -90, offsetY = -30\<rparr>
   \<and> screenToWorld \<lparr>scale = 1, offsetX = 10, offsetY = 20\<rparr> 110 70 = (100, 50)
   \<and> screenToWorld \<lparr>scale = 2, offsetX = -90, offsetY = -30\<rparr> 110 70 = (100, 50)
   \<and> zoomAtScreenPoint \<lparr>scale = 1, offsetX = 10, offsetY = 20\<rparr> 110 70 100
        = \<lparr>scale = 4, offsetX = -290, offsetY = -130\<rparr>"
  using zoomAtScreenPoint_keeps_anchor[of "\<lparr>scale = 1, offsetX = 10, offsetY = 20\<rparr>" 110 70 2]
  by (simp add: zoomAtScreenPoint_def screenToWorld_def clampScale_def MIN_SCALE_def MAX_SCALE_def Let_def)

section \<open>Properties of group rotation\<close>










lemma rotateGroup_nil: "rotateGroup b [] = b"
  by (simp add: rotateGroup_def)







section \<open>Properties of groups\<close>

subsection \<open>The traversal\<close>

lemma findPiece_SomeD: "findPiece h ps i = Some c \<Longrightarrow> c \<in> set ps \<and> pid (h c) = i"
  by (auto simp: findPiece_def find_Some_iff)

lemma findPiece_unique:
  "distinct (map (\<lambda>a. pid (h a)) ps) \<Longrightarrow> c \<in> set ps \<Longrightarrow> findPiece h ps (pid (h c)) = Some c"
proof (induction ps)
  case Nil
  then show ?case by simp
next
  case (Cons p ps)
  then show ?case by (auto simp: findPiece_def)
qed

lemma findPiece_iff:
  "distinct (map (\<lambda>a. pid (h a)) ps) \<Longrightarrow>
     findPiece h ps i = Some c \<longleftrightarrow> c \<in> set ps \<and> pid (h c) = i"
  using findPiece_SomeD findPiece_unique by blast

lemma groupLoop_mono: "set grp \<subseteq> set (groupLoop h ps v tv grp)"
  by (induction h ps v tv grp rule: groupLoop.induct) (auto split: option.splits)

lemma groupLoop_sound:
  "\<forall>c\<in>S. \<forall>i\<in>set (connectedPieces (h c)). \<forall>d. findPiece h ps i = Some d \<longrightarrow> d \<in> S \<Longrightarrow>
   set grp \<subseteq> S \<Longrightarrow> \<forall>i\<in>set tv. \<forall>d. findPiece h ps i = Some d \<longrightarrow> d \<in> S \<Longrightarrow>
   set (groupLoop h ps v tv grp) \<subseteq> S"
proof (induction h ps v tv grp rule: groupLoop.induct)
  case (1 h ps visited grp)
  then show ?case by simp
next
  case (2 h ps visited pieceId toVisit grp)
  note closed = "2.prems"(1)
  have rest: "\<forall>i\<in>set toVisit. \<forall>d. findPiece h ps i = Some d \<longrightarrow> d \<in> S"
    using "2.prems"(3) by simp
  show ?case
  proof (cases "pieceId \<in> visited")
    case True
    have "set (groupLoop h ps visited toVisit grp) \<subseteq> S"
      by (rule "2.IH"(1)[OF True closed "2.prems"(2) rest])
    then show ?thesis using True by simp
  next
    case nv: False
    show ?thesis
    proof (cases "findPiece h ps pieceId")
      case None
      have "set (groupLoop h ps (insert pieceId visited) toVisit grp) \<subseteq> S"
        by (rule "2.IH"(2)[OF nv None closed "2.prems"(2) rest])
      then show ?thesis using nv None by simp
    next
      case (Some c)
      have cS: "c \<in> S" using "2.prems"(3) Some by simp
      have tv: "\<forall>i\<in>set (rev (filter (\<lambda>i. i \<notin> insert pieceId visited) (connectedPieces (h c))) @ toVisit).
              \<forall>d. findPiece h ps i = Some d \<longrightarrow> d \<in> S"
        using cS closed rest by auto
      have g: "set (grp @ [c]) \<subseteq> S" using cS "2.prems"(2) by simp
      have "set (groupLoop h ps (insert pieceId visited)
              (rev (filter (\<lambda>i. i \<notin> insert pieceId visited) (connectedPieces (h c))) @ toVisit)
              (grp @ [c])) \<subseteq> S"
        by (rule "2.IH"(3)[OF nv Some closed g tv])
      then show ?thesis using nv Some by simp
    qed
  qed
qed

lemma groupLoop_closed:
  "\<forall>c\<in>set grp. \<forall>i\<in>set (connectedPieces (h c)). i \<in> v \<union> set tv \<Longrightarrow>
   \<forall>i\<in>v. \<forall>d. findPiece h ps i = Some d \<longrightarrow> d \<in> set grp \<Longrightarrow>
   \<forall>c\<in>set (groupLoop h ps v tv grp). \<forall>i\<in>set (connectedPieces (h c)).
      \<forall>d. findPiece h ps i = Some d \<longrightarrow> d \<in> set (groupLoop h ps v tv grp)"
proof (induction h ps v tv grp rule: groupLoop.induct)
  case (1 h ps visited grp)
  then show ?case by auto
next
  case (2 h ps visited pieceId toVisit grp)
  show ?case
  proof (cases "pieceId \<in> visited")
    case True
    have a: "\<forall>c\<in>set grp. \<forall>i\<in>set (connectedPieces (h c)). i \<in> visited \<union> set toVisit"
      using "2.prems"(1) True by auto
    show ?thesis using "2.IH"(1)[OF True a "2.prems"(2)] True by simp
  next
    case nv: False
    show ?thesis
    proof (cases "findPiece h ps pieceId")
      case None
      have a: "\<forall>c\<in>set grp. \<forall>i\<in>set (connectedPieces (h c)). i \<in> insert pieceId visited \<union> set toVisit"
        using "2.prems"(1) by auto
      have b: "\<forall>i\<in>insert pieceId visited. \<forall>d. findPiece h ps i = Some d \<longrightarrow> d \<in> set grp"
        using "2.prems"(2) None by auto
      show ?thesis using "2.IH"(2)[OF nv None a b] nv None by simp
    next
      case (Some c)
      let ?tv = "rev (filter (\<lambda>i. i \<notin> insert pieceId visited) (connectedPieces (h c))) @ toVisit"
      have a: "\<forall>c'\<in>set (grp @ [c]). \<forall>i\<in>set (connectedPieces (h c')).
                  i \<in> insert pieceId visited \<union> set ?tv"
        using "2.prems"(1) by auto
      have b: "\<forall>i\<in>insert pieceId visited. \<forall>d. findPiece h ps i = Some d \<longrightarrow> d \<in> set (grp @ [c])"
        using "2.prems"(2) Some by auto
      show ?thesis using "2.IH"(3)[OF nv Some a b] nv Some by simp
    qed
  qed
qed

lemma groupLoop_distinct_ids:
  "distinct (map (\<lambda>a. pid (h a)) grp) \<Longrightarrow> (\<lambda>a. pid (h a)) ` set grp \<subseteq> v \<Longrightarrow>
   distinct (map (\<lambda>a. pid (h a)) (groupLoop h ps v tv grp))"
proof (induction h ps v tv grp rule: groupLoop.induct)
  case (1 h ps visited grp)
  then show ?case by simp
next
  case (2 h ps visited pieceId toVisit grp)
  show ?case
  proof (cases "pieceId \<in> visited")
    case True
    show ?thesis using "2.IH"(1)[OF True "2.prems"] True by simp
  next
    case nv: False
    show ?thesis
    proof (cases "findPiece h ps pieceId")
      case None
      have b: "(\<lambda>a. pid (h a)) ` set grp \<subseteq> insert pieceId visited" using "2.prems"(2) by auto
      show ?thesis using "2.IH"(2)[OF nv None "2.prems"(1) b] nv None by simp
    next
      case (Some c)
      have idc: "pid (h c) = pieceId" using findPiece_SomeD[OF Some] by simp
      have a: "distinct (map (\<lambda>a. pid (h a)) (grp @ [c]))"
        using "2.prems" nv idc by auto
      have b: "(\<lambda>a. pid (h a)) ` set (grp @ [c]) \<subseteq> insert pieceId visited"
        using "2.prems"(2) idc by auto
      show ?thesis using "2.IH"(3)[OF nv Some a b] nv Some by simp
    qed
  qed
qed


subsection \<open>Groups are components\<close>

lemma group_self: "a \<in> set (getAllPiecesInGroup b a)"
  unfolding getAllPiecesInGroup_def
  using groupLoop_mono[of "[a]" "heap b" "pieces b" "{pid (heap b a)}" "rev (connectedPieces (heap b a))"]
  by simp

lemma group_distinct_ids: "distinct (map (\<lambda>a. pid (heap b a)) (getAllPiecesInGroup b a))"
  unfolding getAllPiecesInGroup_def by (rule groupLoop_distinct_ids) simp_all

lemma group_distinct: "distinct (getAllPiecesInGroup b a)"
  using group_distinct_ids[of b a] by (simp add: distinct_map)

lemma pieceGraph_findPiece:
  "findPiece (heap b) (pieces b) i = Some d \<Longrightarrow> i \<in> set (connectedPieces (heap b c)) \<Longrightarrow>
     (c, d) \<in> pieceGraph b"
  using findPiece_SomeD[of "heap b" "pieces b" i d] by (auto simp: pieceGraph_def)

lemma group_subset_component: "set (getAllPiecesInGroup b a) \<subseteq> component b a"
  unfolding getAllPiecesInGroup_def
proof (rule groupLoop_sound)
  show "\<forall>c\<in>component b a. \<forall>i\<in>set (connectedPieces (heap b c)).
          \<forall>d. findPiece (heap b) (pieces b) i = Some d \<longrightarrow> d \<in> component b a"
  proof (intro ballI allI impI)
    fix c i d
    assume c: "c \<in> component b a" and i: "i \<in> set (connectedPieces (heap b c))"
      and f: "findPiece (heap b) (pieces b) i = Some d"
    have "(c, d) \<in> pieceGraph b" using f i by (rule pieceGraph_findPiece)
    then show "d \<in> component b a" using c by (auto simp: component_def intro: rtrancl_into_rtrancl)
  qed
next
  show "set [a] \<subseteq> component b a" by (simp add: component_def)
next
  show "\<forall>i\<in>set (rev (connectedPieces (heap b a))).
          \<forall>d. findPiece (heap b) (pieces b) i = Some d \<longrightarrow> d \<in> component b a"
  proof (intro ballI allI impI)
    fix i d
    assume i: "i \<in> set (rev (connectedPieces (heap b a)))"
      and f: "findPiece (heap b) (pieces b) i = Some d"
    have "(a, d) \<in> pieceGraph b" using f i by (auto intro: pieceGraph_findPiece)
    then show "d \<in> component b a" by (auto simp: component_def)
  qed
qed

lemma group_closed:
  assumes "uniqueIds b" and "a \<in> set (pieces b)"
    and "c \<in> set (getAllPiecesInGroup b a)" and "(c, d) \<in> pieceGraph b"
  shows "d \<in> set (getAllPiecesInGroup b a)"
proof -
  have u: "distinct (map (\<lambda>a. pid (heap b a)) (pieces b))" using assms(1) by (simp add: uniqueIds_def)
  have cl: "\<forall>c\<in>set (getAllPiecesInGroup b a). \<forall>i\<in>set (connectedPieces (heap b c)).
      \<forall>d. findPiece (heap b) (pieces b) i = Some d \<longrightarrow> d \<in> set (getAllPiecesInGroup b a)"
    unfolding getAllPiecesInGroup_def
  proof (rule groupLoop_closed)
    show "\<forall>c\<in>set [a]. \<forall>i\<in>set (connectedPieces (heap b c)).
            i \<in> {pid (heap b a)} \<union> set (rev (connectedPieces (heap b a)))"
      by simp
  next
    show "\<forall>i\<in>{pid (heap b a)}. \<forall>d. findPiece (heap b) (pieces b) i = Some d \<longrightarrow> d \<in> set [a]"
      using findPiece_unique[OF u assms(2)] by simp
  qed
  from assms(4) have d: "d \<in> set (pieces b)" "pid (heap b d) \<in> set (connectedPieces (heap b c))"
    by (simp_all add: pieceGraph_def)
  have "findPiece (heap b) (pieces b) (pid (heap b d)) = Some d"
    using findPiece_unique[OF u d(1)] .
  then show ?thesis using cl assms(3) d(2) by blast
qed

lemma group_component:
  assumes "uniqueIds b" and "a \<in> set (pieces b)"
  shows "set (getAllPiecesInGroup b a) = component b a"
proof
  show "set (getAllPiecesInGroup b a) \<subseteq> component b a" by (rule group_subset_component)
next
  show "component b a \<subseteq> set (getAllPiecesInGroup b a)"
  proof
    fix d
    assume "d \<in> component b a"
    then have "(a, d) \<in> (pieceGraph b)\<^sup>*" by (simp add: component_def)
    then show "d \<in> set (getAllPiecesInGroup b a)"
    proof (induction rule: rtrancl_induct)
      case base
      then show ?case by (rule group_self)
    next
      case (step y z)
      then show ?case using group_closed[OF assms] by blast
    qed
  qed
qed

lemma component_subset_pieces: "a \<in> set (pieces b) \<Longrightarrow> component b a \<subseteq> set (pieces b)"
proof
  fix d
  assume a: "a \<in> set (pieces b)" and "d \<in> component b a"
  then have "(a, d) \<in> (pieceGraph b)\<^sup>*" by (simp add: component_def)
  then show "d \<in> set (pieces b)"
    by (induction rule: rtrancl_induct) (use a in \<open>auto simp: pieceGraph_def\<close>)
qed

lemma group_subset_pieces: "a \<in> set (pieces b) \<Longrightarrow> set (getAllPiecesInGroup b a) \<subseteq> set (pieces b)"
  using group_subset_component[of b a] component_subset_pieces[of a b] by blast


subsection \<open>Merging\<close>

lemma set_setAdd: "set (setAdd i xs) = insert i (set xs)"
  by (auto simp: setAdd_def)

lemma set_setDelete: "set (setDelete i xs) = set xs - {i}"
  by (simp add: setDelete_def)

lemma set_fold_setAdd: "set (fold setAdd xs acc) = set xs \<union> set acc"
  by (induction xs arbitrary: acc) (auto simp: set_setAdd)

lemma set_setFromList: "set (setFromList xs) = set xs"
  by (simp add: setFromList_def set_fold_setAdd)

lemma fold_connected_update:
  "fold (\<lambda>p h. h(p := (h p)\<lparr>connectedPieces := setDelete (pid (h p)) ids\<rparr>)) xs h x
     = (if x \<in> set xs then (h x)\<lparr>connectedPieces := setDelete (pid (h x)) ids\<rparr> else h x)"
proof (induction xs arbitrary: h)
  case Nil
  then show ?case by simp
next
  case (Cons p xs)
  then show ?case by auto
qed

lemma heap_mergeGroups:
  "heap (mergeGroups b p q) x
     = (if x \<in> set (getAllPiecesInGroup b p) \<union> set (getAllPiecesInGroup b q)
        then (heap b x)\<lparr>connectedPieces :=
               setDelete (pid (heap b x))
                 (setFromList (map (\<lambda>a. pid (heap b a))
                    (getAllPiecesInGroup b p @ getAllPiecesInGroup b q)))\<rparr>
        else heap b x)"
  by (simp add: mergeGroups_def Let_def fold_connected_update)

lemma mergeGroups_fields:
  "pieces (mergeGroups b p q) = pieces b"
  "selectedPiece (mergeGroups b p q) = selectedPiece b"
  "activeAnimation (mergeGroups b p q) = activeAnimation b"
  "progressReports (mergeGroups b p q) = progressReports b"
  "camera (mergeGroups b p q) = camera b"
  by (simp_all add: mergeGroups_def Let_def)

lemma mergeGroups_pid: "pid (heap (mergeGroups b p q) x) = pid (heap b x)"
  by (simp add: heap_mergeGroups)

lemma mergeGroups_connected:
  "set (connectedPieces (heap (mergeGroups b p q) x))
     = (if x \<in> set (getAllPiecesInGroup b p) \<union> set (getAllPiecesInGroup b q)
        then (\<lambda>a. pid (heap b a)) ` (set (getAllPiecesInGroup b p) \<union> set (getAllPiecesInGroup b q))
               - {pid (heap b x)}
        else set (connectedPieces (heap b x)))"
  by (simp add: heap_mergeGroups set_setDelete set_setFromList image_Un)

lemma mergeGroups_uniqueIds: "uniqueIds (mergeGroups b p q) = uniqueIds b"
  by (simp add: uniqueIds_def mergeGroups_fields mergeGroups_pid)

text \<open>After a merge every member of the two groups has the merged set as its group.\<close>

lemma mergeGroups_group:
  assumes u: "uniqueIds b" and p: "p \<in> set (pieces b)" and q: "q \<in> set (pieces b)"
    and x: "x \<in> set (getAllPiecesInGroup b p) \<union> set (getAllPiecesInGroup b q)"
  shows "set (getAllPiecesInGroup (mergeGroups b p q) x)
           = set (getAllPiecesInGroup b p) \<union> set (getAllPiecesInGroup b q)"
proof -
  let ?M = "set (getAllPiecesInGroup b p) \<union> set (getAllPiecesInGroup b q)"
  let ?b = "mergeGroups b p q"
  have Msub: "?M \<subseteq> set (pieces b)" using group_subset_pieces[OF p] group_subset_pieces[OF q] by blast
  have u': "uniqueIds ?b" using u by (simp add: mergeGroups_uniqueIds)
  have xin: "x \<in> set (pieces ?b)" using x Msub by (auto simp: mergeGroups_fields)
  have inj: "\<And>c d. c \<in> set (pieces b) \<Longrightarrow> d \<in> set (pieces b) \<Longrightarrow>
                pid (heap b c) = pid (heap b d) \<Longrightarrow> c = d"
    using u by (auto simp: uniqueIds_def distinct_map inj_on_def)
  have edge: "\<And>c d. c \<in> ?M \<Longrightarrow> (c, d) \<in> pieceGraph ?b \<longleftrightarrow> d \<in> ?M \<and> d \<noteq> c"
  proof -
    fix c d
    assume c: "c \<in> ?M"
    show "(c, d) \<in> pieceGraph ?b \<longleftrightarrow> d \<in> ?M \<and> d \<noteq> c"
    proof
      assume "(c, d) \<in> pieceGraph ?b"
      then have d: "d \<in> set (pieces b)"
        and "pid (heap b d) \<in> (\<lambda>a. pid (heap b a)) ` ?M - {pid (heap b c)}"
        using c by (simp_all add: pieceGraph_def mergeGroups_fields mergeGroups_pid
            mergeGroups_connected)
      then obtain e where e: "e \<in> ?M" "pid (heap b d) = pid (heap b e)"
        and ne: "pid (heap b d) \<noteq> pid (heap b c)" by auto
      have "d = e" using inj[OF d _ e(2)] e(1) Msub by blast
      then show "d \<in> ?M \<and> d \<noteq> c" using e(1) ne by auto
    next
      assume d: "d \<in> ?M \<and> d \<noteq> c"
      then have "pid (heap b d) \<noteq> pid (heap b c)" using inj[of d c] c Msub by blast
      then show "(c, d) \<in> pieceGraph ?b"
        using c d Msub
        by (auto simp: pieceGraph_def mergeGroups_fields mergeGroups_pid mergeGroups_connected)
    qed
  qed
  have "component ?b x = ?M"
  proof
    show "component ?b x \<subseteq> ?M"
    proof
      fix d
      assume "d \<in> component ?b x"
      then have "(x, d) \<in> (pieceGraph ?b)\<^sup>*" by (simp add: component_def)
      then show "d \<in> ?M"
        by (induction rule: rtrancl_induct) (use x edge in auto)
    qed
  next
    show "?M \<subseteq> component ?b x"
    proof
      fix d
      assume d: "d \<in> ?M"
      show "d \<in> component ?b x"
      proof (cases "d = x")
        case True
        then show ?thesis by (simp add: component_def)
      next
        case False
        then have "(x, d) \<in> pieceGraph ?b" using edge[OF x, of d] d by simp
        then show ?thesis by (auto simp: component_def)
      qed
    qed
  qed
  then show ?thesis using group_component[OF u' xin] by simp
qed

subsection \<open>Connecting two pieces\<close>

lemma recordLink_fields:
  "pieces (recordLink b a c) = pieces b"
  "selectedPiece (recordLink b a c) = selectedPiece b"
  "activeAnimation (recordLink b a c) = activeAnimation b"
  "progressReports (recordLink b a c) = progressReports b"
  "camera (recordLink b a c) = camera b"
  by (simp_all add: recordLink_def Let_def)

lemma recordLink_pid: "pid (heap (recordLink b a c) x) = pid (heap b x)"
  by (simp add: recordLink_def Let_def)

lemma recordLink_connected:
  "set (connectedPieces (heap (recordLink b a c) x))
     = set (connectedPieces (heap b x))
         \<union> (if x = a then {pid (heap b c)} else {})
         \<union> (if x = c then {pid (heap b a)} else {})"
  by (auto simp: recordLink_def Let_def set_setAdd)

lemma recordLink_uniqueIds: "uniqueIds (recordLink b a c) = uniqueIds b"
  by (simp add: uniqueIds_def recordLink_fields recordLink_pid)

lemma recordLink_graph: "pieceGraph b \<subseteq> pieceGraph (recordLink b a c)"
  by (auto simp: pieceGraph_def recordLink_fields recordLink_pid recordLink_connected)

lemma connectPieces_fields:
  "pieces (connectPieces b a c) = pieces b"
  "selectedPiece (connectPieces b a c) = selectedPiece b"
  "activeAnimation (connectPieces b a c) = activeAnimation b"
  "progressReports (connectPieces b a c) = progressReports b"
  "camera (connectPieces b a c) = camera b"
  by (simp_all add: connectPieces_def mergeGroups_fields recordLink_fields)

lemma connectPieces_pid: "pid (heap (connectPieces b a c) x) = pid (heap b x)"
  by (simp add: connectPieces_def mergeGroups_pid recordLink_pid)

lemma connectPieces_uniqueIds: "uniqueIds (connectPieces b a c) = uniqueIds b"
  by (simp add: connectPieces_def mergeGroups_uniqueIds recordLink_uniqueIds)

lemma uniqueIds_inj:
  "uniqueIds b \<Longrightarrow> x \<in> set (pieces b) \<Longrightarrow> y \<in> set (pieces b) \<Longrightarrow>
     pid (heap b x) = pid (heap b y) \<Longrightarrow> x = y"
  by (auto simp: uniqueIds_def distinct_map inj_on_def)

text \<open>
  The merged set of a connection, and what a connection does to the connected-sets:
  members of the merged set name exactly the other members, everything else is
  untouched.
\<close>

lemma connectPieces_connected:
  assumes u: "uniqueIds b" and a: "a \<in> set (pieces b)" and c: "c \<in> set (pieces b)"
  defines "M \<equiv> set (getAllPiecesInGroup (recordLink b a c) a)
                \<union> set (getAllPiecesInGroup (recordLink b a c) c)"
  shows "a \<in> M" and "c \<in> M" and "M \<subseteq> set (pieces b)"
    and "\<And>x y. x \<in> M \<Longrightarrow> y \<in> set (pieces b) \<Longrightarrow>
           pid (heap b y) \<in> set (connectedPieces (heap b x)) \<Longrightarrow> y \<in> M"
    and "\<And>x. x \<in> M \<Longrightarrow> set (connectedPieces (heap (connectPieces b a c) x))
                            = (\<lambda>z. pid (heap b z)) ` M - {pid (heap b x)}"
    and "\<And>x. x \<notin> M \<Longrightarrow> connectedPieces (heap (connectPieces b a c) x)
                            = connectedPieces (heap b x)"
proof -
  let ?b2 = "recordLink b a c"
  have u2: "uniqueIds ?b2" using u by (simp add: recordLink_uniqueIds)
  have a2: "a \<in> set (pieces ?b2)" and c2: "c \<in> set (pieces ?b2)"
    using a c by (simp_all add: recordLink_fields)
  show aM: "a \<in> M" and cM: "c \<in> M" using group_self by (simp_all add: M_def)
  show "M \<subseteq> set (pieces b)"
    using group_subset_pieces[OF a2] group_subset_pieces[OF c2]
    by (auto simp: M_def recordLink_fields)
  show "\<And>x y. x \<in> M \<Longrightarrow> y \<in> set (pieces b) \<Longrightarrow>
           pid (heap b y) \<in> set (connectedPieces (heap b x)) \<Longrightarrow> y \<in> M"
  proof -
    fix x y
    assume x: "x \<in> M" and y: "y \<in> set (pieces b)"
      and e: "pid (heap b y) \<in> set (connectedPieces (heap b x))"
    have "(x, y) \<in> pieceGraph b" using y e by (simp add: pieceGraph_def)
    then have g: "(x, y) \<in> pieceGraph ?b2" using recordLink_graph by blast
    from x show "y \<in> M"
      unfolding M_def using group_closed[OF u2 a2 _ g] group_closed[OF u2 c2 _ g] by blast
  qed
  show "\<And>x. x \<in> M \<Longrightarrow> set (connectedPieces (heap (connectPieces b a c) x))
                            = (\<lambda>z. pid (heap b z)) ` M - {pid (heap b x)}"
    by (simp add: connectPieces_def mergeGroups_connected M_def recordLink_pid)
  show "\<And>x. x \<notin> M \<Longrightarrow> connectedPieces (heap (connectPieces b a c) x)
                            = connectedPieces (heap b x)"
  proof -
    fix x
    assume x: "x \<notin> M"
    then have "x \<noteq> a" "x \<noteq> c" using aM cM by auto
    then have "connectedPieces (heap ?b2 x) = connectedPieces (heap b x)"
      by (simp add: recordLink_def Let_def)
    then show "connectedPieces (heap (connectPieces b a c) x) = connectedPieces (heap b x)"
      using x by (simp add: connectPieces_def heap_mergeGroups M_def)
  qed
qed

lemma connectPieces_links:
  assumes "uniqueIds b" and "a \<in> set (pieces b)" and "c \<in> set (pieces b)" and "a \<noteq> c"
  shows "pid (heap (connectPieces b a c) c) \<in> set (connectedPieces (heap (connectPieces b a c) a))
       \<and> pid (heap (connectPieces b a c) a) \<in> set (connectedPieces (heap (connectPieces b a c) c))"
proof -
  note M = connectPieces_connected[OF assms(1-3)]
  have ne: "pid (heap b a) \<noteq> pid (heap b c)"
    using uniqueIds_inj[OF assms(1-3)] assms(4) by blast
  show ?thesis using M(1,2) ne by (simp add: M(5) connectPieces_pid)
qed

lemma connectPieces_keeps_links:
  assumes u: "uniqueIds b" and a: "a \<in> set (pieces b)" and c: "c \<in> set (pieces b)"
    and x: "x \<in> set (pieces b)" and y: "y \<in> set (pieces b)" and xy: "x \<noteq> y"
    and l: "pid (heap b y) \<in> set (connectedPieces (heap b x))"
           "pid (heap b x) \<in> set (connectedPieces (heap b y))"
  shows "pid (heap (connectPieces b a c) y) \<in> set (connectedPieces (heap (connectPieces b a c) x))
       \<and> pid (heap (connectPieces b a c) x) \<in> set (connectedPieces (heap (connectPieces b a c) y))"
proof -
  note M = connectPieces_connected[OF u a c]
  let ?M = "set (getAllPiecesInGroup (recordLink b a c) a)
                \<union> set (getAllPiecesInGroup (recordLink b a c) c)"
  have ne: "pid (heap b x) \<noteq> pid (heap b y)" using uniqueIds_inj[OF u x y] xy by blast
  show ?thesis
  proof (cases "x \<in> ?M")
    case True
    then have "y \<in> ?M" using M(4)[OF True y l(1)] by simp
    then show ?thesis using True ne by (simp add: M(5) connectPieces_pid)
  next
    case False
    have "y \<notin> ?M"
    proof
      assume "y \<in> ?M"
      then have "x \<in> ?M" using M(4)[OF _ x l(2)] by simp
      then show False using False by simp
    qed
    then show ?thesis using False l by (simp add: M(6) connectPieces_pid)
  qed
qed

lemma connectPieces_symmetric:
  assumes u: "uniqueIds b" and a: "a \<in> set (pieces b)" and c: "c \<in> set (pieces b)"
    and s: "symmetricConnectivity b"
  shows "symmetricConnectivity (connectPieces b a c)"
  unfolding symmetricConnectivity_def connectPieces_fields connectPieces_pid
proof (intro ballI)
  fix x y
  assume x: "x \<in> set (pieces b)" and y: "y \<in> set (pieces b)"
  note M = connectPieces_connected[OF u a c]
  let ?M = "set (getAllPiecesInGroup (recordLink b a c) a)
                \<union> set (getAllPiecesInGroup (recordLink b a c) c)"
  have sym: "pid (heap b y) \<in> set (connectedPieces (heap b x))
               \<longleftrightarrow> pid (heap b x) \<in> set (connectedPieces (heap b y))"
    using s x y by (simp add: symmetricConnectivity_def)
  have inM: "\<And>z w. z \<in> ?M \<Longrightarrow> w \<in> set (pieces b) \<Longrightarrow>
                pid (heap b w) \<in> (\<lambda>z. pid (heap b z)) ` ?M \<longleftrightarrow> w \<in> ?M"
    using uniqueIds_inj[OF u] M(3) by blast
  show "pid (heap b y) \<in> set (connectedPieces (heap (connectPieces b a c) x))
          \<longleftrightarrow> pid (heap b x) \<in> set (connectedPieces (heap (connectPieces b a c) y))"
  proof (cases "x \<in> ?M")
    case xM: True
    show ?thesis
    proof (cases "y \<in> ?M")
      case True
      then show ?thesis using xM by (auto simp: M(5))
    next
      case False
      have "pid (heap b x) \<notin> set (connectedPieces (heap b y))"
        using M(4)[OF xM y] sym False by blast
      then show ?thesis using xM False inM[OF xM y] by (simp add: M(5) M(6))
    qed
  next
    case xM: False
    show ?thesis
    proof (cases "y \<in> ?M")
      case True
      have "pid (heap b y) \<notin> set (connectedPieces (heap b x))"
        using M(4)[OF True x] sym xM by blast
      then show ?thesis using xM True inM[OF True x] by (simp add: M(5) M(6))
    next
      case False
      then show ?thesis using xM sym by (simp add: M(6))
    qed
  qed
qed

lemma linked_same_group:
  assumes u: "uniqueIds b" and x: "x \<in> set (pieces b)" and y: "y \<in> set (pieces b)"
    and l: "pid (heap b y) \<in> set (connectedPieces (heap b x))"
           "pid (heap b x) \<in> set (connectedPieces (heap b y))"
  shows "set (getAllPiecesInGroup b x) = set (getAllPiecesInGroup b y)"
proof -
  have xy: "(x, y) \<in> pieceGraph b" and yx: "(y, x) \<in> pieceGraph b"
    using x y l by (simp_all add: pieceGraph_def)
  have "component b x = component b y"
    unfolding component_def using xy yx
    by (auto intro: converse_rtrancl_into_rtrancl)
  then show ?thesis using group_component[OF u x] group_component[OF u y] by simp
qed

subsection \<open>Runs of connections\<close>

lemma connectAll_snoc: "connectAll b (cs @ [(a, c)]) = connectPieces (connectAll b cs) a c"
  by (simp add: connectAll_def)

lemma connectAll_pieces: "pieces (connectAll b cs) = pieces b"
  by (induction cs rule: rev_induct) (auto simp: connectAll_snoc connectPieces_fields connectAll_def)

lemma connectAll_uniqueIds: "uniqueIds (connectAll b cs) = uniqueIds b"
  by (induction cs rule: rev_induct) (auto simp: connectAll_snoc connectPieces_uniqueIds connectAll_def)

lemma connectAll_links:
  "uniqueIds b \<Longrightarrow> \<forall>(x, y)\<in>set cs. x \<in> set (pieces b) \<and> y \<in> set (pieces b) \<Longrightarrow>
   (x, y) \<in> set cs \<Longrightarrow> x \<noteq> y \<Longrightarrow>
   pid (heap (connectAll b cs) y) \<in> set (connectedPieces (heap (connectAll b cs) x))
   \<and> pid (heap (connectAll b cs) x) \<in> set (connectedPieces (heap (connectAll b cs) y))"
proof (induction cs rule: rev_induct)
  case Nil
  then show ?case by simp
next
  case (snoc e cs)
  obtain a c where e: "e = (a, c)" by (cases e)
  let ?b = "connectAll b cs"
  have u: "uniqueIds ?b" using snoc.prems(1) by (simp add: connectAll_uniqueIds)
  have a: "a \<in> set (pieces ?b)" and c: "c \<in> set (pieces ?b)"
    using snoc.prems(2) e by (auto simp: connectAll_pieces)
  have x: "x \<in> set (pieces ?b)" and y: "y \<in> set (pieces ?b)"
    using snoc.prems(2,3) by (auto simp: connectAll_pieces)
  show ?case
  proof (cases "(x, y) \<in> set cs")
    case True
    have "pid (heap ?b y) \<in> set (connectedPieces (heap ?b x))
        \<and> pid (heap ?b x) \<in> set (connectedPieces (heap ?b y))"
      using snoc.IH[OF snoc.prems(1) _ True snoc.prems(4)] snoc.prems(2) by simp
    then show ?thesis
      unfolding e connectAll_snoc
      using connectPieces_keeps_links[OF u a c x y snoc.prems(4)] by blast
  next
    case False
    then have "x = a" "y = c" using snoc.prems(3) e by auto
    then show ?thesis
      unfolding e connectAll_snoc
      using connectPieces_links[OF u a c] snoc.prems(4) by blast
  qed
qed

lemma connectAll_same_group:
  assumes u: "uniqueIds b" and cs: "\<forall>(x, y)\<in>set cs. x \<in> set (pieces b) \<and> y \<in> set (pieces b)"
    and xy: "(x, y) \<in> set cs \<or> (y, x) \<in> set cs"
  shows "set (getAllPiecesInGroup (connectAll b cs) x) = set (getAllPiecesInGroup (connectAll b cs) y)"
proof (cases "x = y")
  case True
  then show ?thesis by simp
next
  case False
  let ?b = "connectAll b cs"
  have u': "uniqueIds ?b" using u by (simp add: connectAll_uniqueIds)
  have x: "x \<in> set (pieces ?b)" and y: "y \<in> set (pieces ?b)"
    using cs xy by (auto simp: connectAll_pieces)
  have "pid (heap ?b y) \<in> set (connectedPieces (heap ?b x))
        \<and> pid (heap ?b x) \<in> set (connectedPieces (heap ?b y))"
    using xy connectAll_links[OF u cs, of x y] connectAll_links[OF u cs, of y x] False by blast
  then show ?thesis using linked_same_group[OF u' x y] by blast
qed

text \<open>
  Claim C1. From a board whose pieces have their own ids, let connections be made
  one after the other, each as the pointer-up path makes it (both ids added, then
  \<^verbatim>\<open>mergeGroups\<close>). If the run contains a connection between \<open>A\<close> and \<open>B\<close> and one
  between \<open>B\<close> and \<open>C\<close>, in either orientation and with any other connections around
  them, then at the end \<^verbatim>\<open>getAllPiecesInGroup\<close> returns the same set of pieces for \<open>A\<close>,
  for \<open>B\<close> and for \<open>C\<close>. And after \<^verbatim>\<open>mergeGroups(p, q)\<close> the group of every piece that
  was in the group of \<open>p\<close> or in the group of \<open>q\<close> is the union of those two groups.
\<close>
theorem groups_identical_after_connections:
  assumes "uniqueIds b"
    and "\<forall>(x, y)\<in>set cs. x \<in> set (pieces b) \<and> y \<in> set (pieces b)"
    and "(A, B) \<in> set cs \<or> (B, A) \<in> set cs"
    and "(B, C) \<in> set cs \<or> (C, B) \<in> set cs"
  shows "set (getAllPiecesInGroup (connectAll b cs) A) = set (getAllPiecesInGroup (connectAll b cs) B)
     \<and> set (getAllPiecesInGroup (connectAll b cs) B) = set (getAllPiecesInGroup (connectAll b cs) C)
     \<and> (p \<in> set (pieces b) \<and> q \<in> set (pieces b)
          \<and> x \<in> set (getAllPiecesInGroup b p) \<union> set (getAllPiecesInGroup b q)
        \<longrightarrow> set (getAllPiecesInGroup (mergeGroups b p q) x)
              = set (getAllPiecesInGroup b p) \<union> set (getAllPiecesInGroup b q))"
  using connectAll_same_group[OF assms(1,2,3)] connectAll_same_group[OF assms(1,2,4)]
    mergeGroups_group[OF assms(1), of p q x]
  by blast

lemma three_unique: "uniqueIds boardOfThree"
  by (simp add: uniqueIds_def boardOfThree_def boardOf_def threePieces_def pieceA_def pieceMid_def
      pieceB_def pieceC_def newPiece_def)


lemma three_pieces: "pieces boardOfThree = [0, 1, 2]"
  by (simp add: boardOfThree_def boardOf_def)

theorem groups_identical_after_connections_witness:
  "uniqueIds boardOfThree \<and> pieces boardOfThree = [0, 1, 2]
   \<and> set (getAllPiecesInGroup (connectAll boardOfThree [(0, 1), (1, 2)]) 0) = {0, 1, 2}
   \<and> set (getAllPiecesInGroup (connectAll boardOfThree [(0, 1), (1, 2)]) 1) = {0, 1, 2}
   \<and> set (getAllPiecesInGroup (connectAll boardOfThree [(0, 1), (1, 2)]) 2) = {0, 1, 2}
   \<and> 0 \<in> set (getAllPiecesInGroup boardOfThree 0) \<union> set (getAllPiecesInGroup boardOfThree 1)
   \<and> set (getAllPiecesInGroup (mergeGroups boardOfThree 0 1) 0) = {0, 1}"
proof -
  let ?b = "connectAll boardOfThree [(0, 1), (1, 2)]"
  have h2: "\<forall>(x, y)\<in>set [(0::nat, 1::nat), (1, 2)].
              x \<in> set (pieces boardOfThree) \<and> y \<in> set (pieces boardOfThree)"
    by (simp add: three_pieces)
  have h3: "(0::nat, 1::nat) \<in> set [(0, 1), (1, 2)] \<or> (1::nat, 0::nat) \<in> set [(0, 1), (1, 2)]"
    by simp
  have h4: "(1::nat, 2::nat) \<in> set [(0, 1), (1, 2)] \<or> (2::nat, 1::nat) \<in> set [(0, 1), (1, 2)]"
    by simp
  have g0: "getAllPiecesInGroup boardOfThree 0 = [0]" and g1: "getAllPiecesInGroup boardOfThree 1 = [1]"
    by (simp_all add: getAllPiecesInGroup_def boardOfThree_def boardOf_def threePieces_def
        pieceA_def pieceMid_def pieceB_def newPiece_def)
  from groups_identical_after_connections[OF three_unique h2 h3 h4, of 0 1 0]
  have eq: "set (getAllPiecesInGroup ?b 0) = set (getAllPiecesInGroup ?b 1)"
           "set (getAllPiecesInGroup ?b 1) = set (getAllPiecesInGroup ?b 2)"
    and mg: "set (getAllPiecesInGroup (mergeGroups boardOfThree 0 1) 0) = {0, 1}"
    by (auto simp: three_pieces g0 g1 g1[unfolded One_nat_def])
  have sub: "set (getAllPiecesInGroup ?b 0) \<subseteq> {0, 1, 2}"
    using group_subset_pieces[of 0 ?b] by (simp add: connectAll_pieces three_pieces)
  have "0 \<in> set (getAllPiecesInGroup ?b 0)" "1 \<in> set (getAllPiecesInGroup ?b 1)"
    "2 \<in> set (getAllPiecesInGroup ?b 2)"
    by (rule group_self)+
  then have "set (getAllPiecesInGroup ?b 0) = {0, 1, 2}" using eq sub by auto
  then show ?thesis using eq three_unique three_pieces mg by (simp add: g0 g1 g1[unfolded One_nat_def])
qed

section \<open>Properties of the handlers\<close>

subsection \<open>Steps that keep the piece graph\<close>

lemma connectivityOf_eqD:
  "connectivityOf h' = connectivityOf h \<Longrightarrow>
     pid (h' a) = pid (h a) \<and> connectedPieces (h' a) = connectedPieces (h a)"
  by (drule fun_cong[of _ _ a]) (simp add: connectivityOf_def)

lemma keepsGraph_refl: "boardInv b \<Longrightarrow> keepsGraph b b"
  by (simp add: keepsGraph_def boardInv_def)

lemma keepsGraph_set: "keepsGraph b b' \<Longrightarrow> set (pieces b') = set (pieces b)"
  by (auto simp: keepsGraph_def dest: mset_eq_setD)

lemma keepsGraph_trans: "keepsGraph b b1 \<Longrightarrow> keepsGraph b1 b2 \<Longrightarrow> keepsGraph b b2"
  using keepsGraph_set[of b b1] by (simp add: keepsGraph_def)

lemma keepsGraph_uniqueIds: "keepsGraph b b' \<Longrightarrow> uniqueIds b' = uniqueIds b"
proof -
  assume k: "keepsGraph b b'"
  have f: "(\<lambda>a. pid (heap b' a)) = (\<lambda>a. pid (heap b a))"
    using k connectivityOf_eqD[of "heap b'" "heap b"] by (auto simp: keepsGraph_def)
  have "mset (map (\<lambda>a. pid (heap b a)) (pieces b')) = mset (map (\<lambda>a. pid (heap b a)) (pieces b))"
    using k by (simp add: keepsGraph_def)
  then show ?thesis unfolding uniqueIds_def f by (rule mset_eq_imp_distinct_iff)
qed

lemma keepsGraph_boardInv: "keepsGraph b b' \<Longrightarrow> boardInv b \<Longrightarrow> boardInv b'"
  using keepsGraph_uniqueIds[of b b'] keepsGraph_set[of b b']
  by (simp add: boardInv_def keepsGraph_def)


lemma keepsGraph_symmetric:
  "keepsGraph b b' \<Longrightarrow> symmetricConnectivity b' = symmetricConnectivity b"
  using keepsGraph_set[of b b'] connectivityOf_eqD[of "heap b'" "heap b"]
  by (simp add: symmetricConnectivity_def keepsGraph_def)

lemma keepsGraph_update [simp]:
  "keepsGraph b (b'\<lparr>boardDragging := v1\<rparr>) = keepsGraph b b'"
  "keepsGraph b (b'\<lparr>pointerDownScreenPos := v2\<rparr>) = keepsGraph b b'"
  "keepsGraph b (b'\<lparr>hasMovedBeyondThreshold := v3\<rparr>) = keepsGraph b b'"
  "keepsGraph b (b'\<lparr>camera := v4\<rparr>) = keepsGraph b b'"
  "keepsGraph b (b'\<lparr>dragPointerId := v5\<rparr>) = keepsGraph b b'"
  "keepsGraph b (b'\<lparr>panPointerId := v6\<rparr>) = keepsGraph b b'"
  "keepsGraph b (b'\<lparr>panLast := v7\<rparr>) = keepsGraph b b'"
  "keepsGraph b (b'\<lparr>progressReports := v8\<rparr>) = keepsGraph b b'"
  by (simp_all add: keepsGraph_def)

lemma keepsGraph_deselect: "keepsGraph b b' \<Longrightarrow> keepsGraph b (b'\<lparr>selectedPiece := None\<rparr>)"
  by (simp add: keepsGraph_def)

lemma keepsGraph_select:
  "keepsGraph b b' \<Longrightarrow> s \<in> set (pieces b) \<Longrightarrow> keepsGraph b (b'\<lparr>selectedPiece := Some s\<rparr>)"
  by (simp add: keepsGraph_def)

lemma keepsGraph_heap:
  "keepsGraph b b' \<Longrightarrow> connectivityOf h = connectivityOf (heap b') \<Longrightarrow> keepsGraph b (b'\<lparr>heap := h\<rparr>)"
  by (simp add: keepsGraph_def)

lemma connectivityOf_fold:
  "(\<And>p h. connectivityOf (f p h) = connectivityOf h) \<Longrightarrow>
     connectivityOf (fold f xs h) = connectivityOf h"
  by (induction xs arbitrary: h) simp_all

lemma connectivityOf_upd:
  "pid v = pid (h p) \<Longrightarrow> connectedPieces v = connectedPieces (h p) \<Longrightarrow>
     connectivityOf (h(p := v)) = connectivityOf h"
  by (auto simp: connectivityOf_def fun_eq_iff)

lemma rotateAbout_connectivity:
  "pid (rotateAbout cx cy p) = pid p" "connectedPieces (rotateAbout cx cy p) = connectedPieces p"
  by (simp_all add: rotateAbout_def Let_def flip_def rotate90_def)

lemma connectivityOf_moveGroup: "connectivityOf (moveGroup h sel grp dx dy) = connectivityOf h"
  unfolding moveGroup_def by (rule connectivityOf_fold) (simp add: connectivityOf_upd)

lemma connectivityOf_translateGroup: "connectivityOf (translateGroup h grp dx dy) = connectivityOf h"
  unfolding translateGroup_def by (rule connectivityOf_fold) (simp add: connectivityOf_upd)

lemma connectivityOf_lockGroup: "connectivityOf (lockGroup h grp) = connectivityOf h"
  unfolding lockGroup_def by (rule connectivityOf_fold) (simp add: connectivityOf_upd)

lemma keepsGraph_checkAndLock:
  "keepsGraph b b' \<Longrightarrow> keepsGraph b (checkAndLockCorrectlyPlacedPieces b')"
  unfolding checkAndLockCorrectlyPlacedPieces_def
  by (rule keepsGraph_heap, assumption, rule connectivityOf_fold) (simp add: connectivityOf_upd)

lemma keepsGraph_updateProgress: "keepsGraph b b' \<Longrightarrow> keepsGraph b (updateProgress b')"
  by (simp add: updateProgress_def Let_def)

lemma keepsGraph_rotateGroup: "keepsGraph b b' \<Longrightarrow> keepsGraph b (rotateGroup b' grp)"
  unfolding rotateGroup_def Let_def
  by (auto intro!: keepsGraph_heap connectivityOf_fold simp: connectivityOf_upd rotateAbout_connectivity)

lemma mset_bringToFront:
  assumes "uniqueIds b" and "p \<in> set (pieces b)"
  shows "mset (pieces (bringToFront b p)) = mset (pieces b)"
proof -
  let ?g = "getAllPiecesInGroup b p"
  have dp: "distinct (pieces b)" using assms(1) by (simp add: uniqueIds_def distinct_map)
  have df: "distinct (filter (\<lambda>q. q \<in> set ?g) (pieces b))" using dp by simp
  have "set ?g = set (filter (\<lambda>q. q \<in> set ?g) (pieces b))"
    using group_subset_pieces[OF assms(2)] by auto
  then have "mset ?g = mset (filter (\<lambda>q. q \<in> set ?g) (pieces b))"
    using set_eq_iff_mset_eq_distinct[OF group_distinct[of b p] df] by blast
  then have "mset (pieces (bringToFront b p))
      = filter_mset (\<lambda>q. q \<notin> set ?g) (mset (pieces b)) + filter_mset (\<lambda>q. q \<in> set ?g) (mset (pieces b))"
    by (simp add: bringToFront_def Let_def)
  also have "\<dots> = mset (pieces b)"
    using multiset_partition[of "mset (pieces b)" "\<lambda>q. q \<notin> set ?g"] by simp
  finally show ?thesis .
qed

lemma keepsGraph_bringToFront:
  assumes "keepsGraph b b'" and "boardInv b" and "p \<in> set (pieces b)"
  shows "keepsGraph b (bringToFront b' p)"
proof -
  have u: "uniqueIds b'" using assms(1,2) keepsGraph_uniqueIds by (simp add: boardInv_def)
  have p: "p \<in> set (pieces b')" using assms(1,3) keepsGraph_set by simp
  have "mset (pieces (bringToFront b' p)) = mset (pieces b)"
    using mset_bringToFront[OF u p] assms(1) by (simp add: keepsGraph_def)
  moreover have "heap (bringToFront b' p) = heap b'" "selectedPiece (bringToFront b' p) = selectedPiece b'"
    by (simp_all add: bringToFront_def Let_def)
  ultimately show ?thesis using assms(1) by (simp add: keepsGraph_def)
qed


lemma keepsGraph_handlePointerDown:
  assumes inv: "boardInv b"
  shows "keepsGraph b (handlePointerDown b x y sx sy i)"
proof (cases "activeAnimation b")
  case True
  then show ?thesis using inv by (simp add: handlePointerDown_def keepsGraph_refl)
next
  case False
  define candidates where "candidates =
     map (\<lambda>p. (p, length (getAllPiecesInGroup b p)))
       (filter (\<lambda>p. \<not> isLocked (heap b p) \<and> containsPoint (heap b p) x y) (rev (pieces b)))"
  define b1 where "b1 = (case sort_key snd candidates of
                     [] \<Rightarrow> b\<lparr>selectedPiece := None\<rparr>
                   | selectedCandidate # rest \<Rightarrow>
                       (let newSelected = fst selectedCandidate
                        in if selectedPiece b = Some newSelected then b\<lparr>selectedPiece := None\<rparr>
                           else
                             (let b' = bringToFront (b\<lparr>selectedPiece := Some newSelected\<rparr>) newSelected
                              in b'\<lparr>heap := (heap b')(newSelected := (heap b' newSelected)
                                     \<lparr>dragOffset := (x - px (heap b' newSelected),
                                                     y - py (heap b' newSelected))\<rparr>)\<rparr>)))"
  have k1: "keepsGraph b b1"
  proof (cases "sort_key snd candidates")
    case Nil
    then show ?thesis using inv by (simp add: b1_def keepsGraph_deselect keepsGraph_refl)
  next
    case (Cons sc rest)
    have "sc \<in> set (sort_key snd candidates)" using Cons by simp
    then have "sc \<in> set candidates" by simp
    then have new: "fst sc \<in> set (pieces b)" by (auto simp: candidates_def)
    show ?thesis
    proof (cases "selectedPiece b = Some (fst sc)")
      case True
      then show ?thesis using Cons inv by (simp add: b1_def keepsGraph_deselect keepsGraph_refl)
    next
      case ns: False
      let ?b' = "bringToFront (b\<lparr>selectedPiece := Some (fst sc)\<rparr>) (fst sc)"
      have "keepsGraph b (b\<lparr>selectedPiece := Some (fst sc)\<rparr>)"
        using inv new by (simp add: keepsGraph_select keepsGraph_refl)
      then have "keepsGraph b ?b'" using inv new by (rule keepsGraph_bringToFront)
      then have "keepsGraph b (?b'\<lparr>heap := (heap ?b')(fst sc := (heap ?b' (fst sc))
                                     \<lparr>dragOffset := (x - px (heap ?b' (fst sc)),
                                                     y - py (heap ?b' (fst sc)))\<rparr>)\<rparr>)"
        by (rule keepsGraph_heap) (simp add: connectivityOf_upd)
      then show ?thesis using Cons ns by (simp add: b1_def Let_def)
    qed
  qed
  have "handlePointerDown b x y sx sy i =
     (let b2 = b1\<lparr>boardDragging := False,
                     hasMovedBeyondThreshold := False,
                     pointerDownScreenPos := Some (sx, sy)\<rparr>
         in if selectedPiece b2 \<noteq> None
            then b2\<lparr>dragPointerId := Some i, panPointerId := None, panLast := None\<rparr>
            else b2\<lparr>dragPointerId := None, panPointerId := Some i,
                    panLast := Some (sx, sy)\<rparr>)"
    using False unfolding handlePointerDown_def b1_def candidates_def by (simp only: Let_def if_False)
  then show ?thesis using k1 by (simp add: Let_def)
qed

lemma keepsGraph_handlePointerMove:
  assumes inv: "boardInv b"
  shows "keepsGraph b (handlePointerMove b x y sx sy)"
proof (cases "activeAnimation b")
  case True
  then show ?thesis using inv by (simp add: handlePointerMove_def keepsGraph_refl)
next
  case na: False
  show ?thesis
  proof (cases "selectedPiece b")
    case None
    then show ?thesis using inv na by (simp add: handlePointerMove_def keepsGraph_refl)
  next
    case (Some sel)
    have sel: "sel \<in> set (pieces b)" using inv Some by (simp add: boardInv_def)
    define b1 where "b1 = (case (hasMovedBeyondThreshold b, pointerDownScreenPos b) of
                       (False, Some (downX, downY)) \<Rightarrow>
                         (let dist = sqrt ((sx - downX)\<^sup>2 + (sy - downY)\<^sup>2)
                          in if dist > DRAG_THRESHOLD
                             then bringToFront
                                    (b\<lparr>hasMovedBeyondThreshold := True,
                                       boardDragging := True,
                                       heap := (heap b)(sel := (heap b sel)\<lparr>isDragging := True\<rparr>)\<rparr>)
                                    sel
                             else b)
                     | _ \<Rightarrow> b)"
    have kd: "keepsGraph b (b\<lparr>hasMovedBeyondThreshold := True, boardDragging := True,
                              heap := (heap b)(sel := (heap b sel)\<lparr>isDragging := True\<rparr>)\<rparr>)"
      using inv by (intro keepsGraph_heap) (simp_all add: keepsGraph_refl connectivityOf_upd)
    have k1: "keepsGraph b b1"
      unfolding b1_def using inv kd keepsGraph_bringToFront[OF kd inv sel]
      by (auto simp: Let_def keepsGraph_refl split: option.splits bool.splits prod.splits)
    have eq: "handlePointerMove b x y sx sy =
       (if boardDragging b1 then
                (let newX = x - fst (dragOffset (heap b1 sel));
                     newY = y - snd (dragOffset (heap b1 sel));
                     deltaX = newX - px (heap b1 sel);
                     deltaY = newY - py (heap b1 sel);
                     b2 = b1\<lparr>heap := (heap b1)(sel := (heap b1 sel)\<lparr>px := newX, py := newY\<rparr>)\<rparr>;
                     grp = getAllPiecesInGroup b2 sel
                 in b2\<lparr>heap := moveGroup (heap b2) sel grp deltaX deltaY\<rparr>)
              else b1)"
      using na Some unfolding handlePointerMove_def b1_def by (simp only: Let_def if_False option.case)
    show ?thesis
    proof (cases "boardDragging b1")
      case False
      then show ?thesis using eq k1 by simp
    next
      case True
      let ?b2 = "b1\<lparr>heap := (heap b1)(sel := (heap b1 sel)
                    \<lparr>px := x - fst (dragOffset (heap b1 sel)), py := y - snd (dragOffset (heap b1 sel))\<rparr>)\<rparr>"
      have k2: "keepsGraph b ?b2"
        using k1 by (rule keepsGraph_heap) (simp add: connectivityOf_upd)
      have "keepsGraph b (?b2\<lparr>heap := moveGroup (heap ?b2) sel (getAllPiecesInGroup ?b2 sel)
               (x - fst (dragOffset (heap b1 sel)) - px (heap b1 sel))
               (y - snd (dragOffset (heap b1 sel)) - py (heap b1 sel))\<rparr>)"
        using k2 by (rule keepsGraph_heap) (simp add: connectivityOf_moveGroup)
      then show ?thesis using eq True by (simp add: Let_def)
    qed
  qed
qed


lemma findSnapTarget_SomeD:
  assumes "findSnapTarget h d ps x y = Some r"
  shows "targetPiece r \<in> set ps" and "isSnapCandidate h d x y (targetPiece r)"
proof -
  from assms have fu: "faceUp (h d)" and "snapLoop h d x y ps None = Some r"
    by (auto simp: findSnapTarget_def split: if_splits)
  from snapLoop_result[OF this(2) fu]
  show "targetPiece r \<in> set ps" and "isSnapCandidate h d x y (targetPiece r)" by simp_all
qed

lemma bestSnapLoop_SomeD:
  "bestSnapLoop b grp best = Some (snap, g) \<Longrightarrow>
     best = Some (snap, g)
     \<or> (g \<in> set grp
        \<and> findSnapTarget (heap b) g (pieces b) (px (heap b g)) (py (heap b g)) = Some snap)"
proof (induction grp arbitrary: best)
  case Nil
  then show ?case by simp
next
  case (Cons p grp)
  show ?case
  proof (cases "findSnapTarget (heap b) p (pieces b) (px (heap b p)) (py (heap b p))")
    case None
    then have "bestSnapLoop b grp best = Some (snap, g)" using Cons.prems by simp
    from Cons.IH[OF this] show ?thesis by auto
  next
    case (Some st)
    show ?thesis
    proof (cases "case best of None \<Rightarrow> True | Some (k, kp) \<Rightarrow> distance st < distance k")
      case True
      then have "bestSnapLoop b grp (Some (st, p)) = Some (snap, g)" using Cons.prems Some by simp
      from Cons.IH[OF this] show ?thesis using Some by auto
    next
      case False
      then have "bestSnapLoop b grp best = Some (snap, g)" using Cons.prems Some by simp
      from Cons.IH[OF this] show ?thesis by auto
    qed
  qed
qed

lemma connectPieces_boardInv: "boardInv b \<Longrightarrow> boardInv (connectPieces b g t)"
  by (simp add: boardInv_def connectPieces_uniqueIds connectPieces_fields)

lemma keepsGraph_applySnap:
  assumes "boardInv b"
  shows "\<exists>b1. keepsGraph b b1
            \<and> keepsGraph (connectPieces b1 g (targetPiece snap)) (applySnap b sel grp snap g)"
proof -
  define b1 where "b1 = b\<lparr>heap := translateGroup (heap b) grp
                          (snapX snap - px (heap b g)) (snapY snap - py (heap b g))\<rparr>"
  define b2 where "b2 = connectPieces b1 g (targetPiece snap)"
  have k1: "keepsGraph b b1"
    unfolding b1_def using keepsGraph_refl[OF assms]
    by (rule keepsGraph_heap) (simp add: connectivityOf_translateGroup)
  have i2: "boardInv b2"
    unfolding b2_def using keepsGraph_boardInv[OF k1 assms] by (rule connectPieces_boardInv)
  have eq: "applySnap b sel grp snap g =
      (if isGroupCorrectlyPlaced (heap b2) (getAllPiecesInGroup b2 sel)
       then b2\<lparr>heap := lockGroup (heap b2) (getAllPiecesInGroup b2 sel)\<rparr> else b2)"
    by (simp add: applySnap_def Let_def b1_def b2_def)
  have "keepsGraph b2 (b2\<lparr>heap := lockGroup (heap b2) (getAllPiecesInGroup b2 sel)\<rparr>)"
    using keepsGraph_refl[OF i2] by (rule keepsGraph_heap) (simp add: connectivityOf_lockGroup)
  then have "keepsGraph b2 (applySnap b sel grp snap g)"
    using keepsGraph_refl[OF i2] by (simp add: eq)
  then show ?thesis using k1 b2_def by blast
qed

lemma handlePointerUp_cases:
  assumes inv: "boardInv b"
  shows "keepsGraph b (handlePointerUp b)
         \<or> (\<exists>b1 g t. keepsGraph b b1 \<and> g \<in> set (pieces b) \<and> t \<in> set (pieces b)
                \<and> pid (heap b t) \<noteq> pid (heap b g)
                \<and> keepsGraph (connectPieces b1 g t) (handlePointerUp b))"
proof (cases "activeAnimation b")
  case True
  then show ?thesis using inv by (simp add: handlePointerUp_def keepsGraph_refl)
next
  case na: False
  have fin: "\<And>b0 b1. keepsGraph b0 b1 \<Longrightarrow>
      keepsGraph b0 ((updateProgress (checkAndLockCorrectlyPlacedPieces b1))
          \<lparr>boardDragging := False, pointerDownScreenPos := None, hasMovedBeyondThreshold := False\<rparr>)"
    by (simp add: keepsGraph_updateProgress keepsGraph_checkAndLock)
  show ?thesis
  proof (cases "selectedPiece b")
    case None
    have "handlePointerUp b = (updateProgress (checkAndLockCorrectlyPlacedPieces b))
          \<lparr>boardDragging := False, pointerDownScreenPos := None, hasMovedBeyondThreshold := False\<rparr>"
      using na None by (simp add: handlePointerUp_def Let_def)
    then show ?thesis using fin[OF keepsGraph_refl[OF inv]] by simp
  next
    case (Some sel)
    have sel: "sel \<in> set (pieces b)" using inv Some by (simp add: boardInv_def)
    define b' where "b' = b\<lparr>heap := (heap b)(sel := (heap b sel)\<lparr>isDragging := False\<rparr>)\<rparr>"
    have k': "keepsGraph b b'"
      unfolding b'_def using keepsGraph_refl[OF inv]
      by (rule keepsGraph_heap) (simp add: connectivityOf_upd)
    have i': "boardInv b'" using keepsGraph_boardInv[OF k' inv] .
    have ps': "pieces b' = pieces b" by (simp add: b'_def)
    have pid': "\<And>a. pid (heap b' a) = pid (heap b a)" by (simp add: b'_def)
    show ?thesis
    proof (cases "hasMovedBeyondThreshold b")
      case False
      have "handlePointerUp b = (updateProgress (checkAndLockCorrectlyPlacedPieces b'))
          \<lparr>boardDragging := False, pointerDownScreenPos := None, hasMovedBeyondThreshold := False\<rparr>"
        using na Some False by (simp add: handlePointerUp_def Let_def b'_def)
      then show ?thesis using fin[OF k'] by simp
    next
      case moved: True
      define b'' where "b'' = (case bestSnapLoop b' (getAllPiecesInGroup b' sel) None of
                                 Some (snapTarget, groupPiece) \<Rightarrow>
                                   applySnap b' sel (getAllPiecesInGroup b' sel) snapTarget groupPiece
                               | None \<Rightarrow> b')"
      have eq: "handlePointerUp b =
          (updateProgress (checkAndLockCorrectlyPlacedPieces ((updateProgress b'')\<lparr>selectedPiece := None\<rparr>)))
          \<lparr>boardDragging := False, pointerDownScreenPos := None, hasMovedBeyondThreshold := False\<rparr>"
        using na Some moved unfolding handlePointerUp_def b''_def b'_def by (simp add: Let_def)
      have step: "\<And>b0. keepsGraph b0 b'' \<Longrightarrow> keepsGraph b0 (handlePointerUp b)"
        unfolding eq
        by (intro fin keepsGraph_deselect keepsGraph_updateProgress)
      show ?thesis
      proof (cases "bestSnapLoop b' (getAllPiecesInGroup b' sel) None")
        case None
        then have "b'' = b'" by (simp add: b''_def)
        then show ?thesis using step k' by simp
      next
        case (Some sg)
        obtain snap g where sg: "sg = (snap, g)" by (cases sg)
        have b'': "b'' = applySnap b' sel (getAllPiecesInGroup b' sel) snap g"
          using Some sg by (simp add: b''_def)
        from bestSnapLoop_SomeD[OF Some[unfolded sg]]
        have g: "g \<in> set (getAllPiecesInGroup b' sel)"
          and f: "findSnapTarget (heap b') g (pieces b') (px (heap b' g)) (py (heap b' g)) = Some snap"
          by simp_all
        have gp: "g \<in> set (pieces b)"
          using g group_subset_pieces[of sel b'] sel ps' by auto
        have tp: "targetPiece snap \<in> set (pieces b)"
          using findSnapTarget_SomeD(1)[OF f] ps' by simp
        have ne: "pid (heap b (targetPiece snap)) \<noteq> pid (heap b g)"
          using findSnapTarget_SomeD(2)[OF f] pid' by (simp add: isSnapCandidate_def)
        from keepsGraph_applySnap[OF i', of g snap sel "getAllPiecesInGroup b' sel"]
        obtain b1 where b1: "keepsGraph b' b1"
          "keepsGraph (connectPieces b1 g (targetPiece snap)) b''"
          unfolding b'' by blast
        have "keepsGraph b b1" using k' b1(1) by (rule keepsGraph_trans)
        moreover have "keepsGraph (connectPieces b1 g (targetPiece snap)) (handlePointerUp b)"
          using b1(2) by (rule step)
        ultimately show ?thesis using gp tp ne by blast
      qed
    qed
  qed
qed


lemma keepsGraph_handlePanMove: "boardInv b \<Longrightarrow> keepsGraph b (handlePanMove b x y)"
  by (auto simp: handlePanMove_def Let_def keepsGraph_refl split: option.splits)

lemma flip_connectivity: "pid (flip p) = pid p" "connectedPieces (flip p) = connectedPieces p"
  by (simp_all add: flip_def)

lemma rotate90_connectivity: "pid (rotate90 p) = pid p" "connectedPieces (rotate90 p) = connectedPieces p"
  by (simp_all add: rotate90_def)

lemma interact_cases:
  assumes inv: "boardInv b"
  shows "keepsGraph b (interact b e)
         \<or> (\<exists>b1 g t. keepsGraph b b1 \<and> g \<in> set (pieces b) \<and> t \<in> set (pieces b)
                \<and> pid (heap b t) \<noteq> pid (heap b g)
                \<and> keepsGraph (connectPieces b1 g t) (interact b e))"
proof (cases e)
  case (PointerStart x y i)
  then show ?thesis using keepsGraph_handlePointerDown[OF inv]
    by (simp add: onPointerStart_def Let_def)
next
  case (PointerMove x y i)
  then show ?thesis
    using keepsGraph_handlePointerMove[OF inv] keepsGraph_handlePanMove[OF inv] keepsGraph_refl[OF inv]
    by (simp add: onPointerMove_def Let_def)
next
  case (PointerEnd i)
  show ?thesis
  proof (cases "dragPointerId b = Some i")
    case False
    then show ?thesis using PointerEnd keepsGraph_refl[OF inv] by (simp add: onPointerEnd_def Let_def)
  next
    case True
    have "\<And>b0. keepsGraph b0 (handlePointerUp b) \<Longrightarrow> keepsGraph b0 (interact b e)"
      using PointerEnd True by (simp add: onPointerEnd_def Let_def)
    then show ?thesis using handlePointerUp_cases[OF inv] by blast
  qed
next
  case (DoubleTap x y)
  then show ?thesis
    using keepsGraph_refl[OF inv] keepsGraph_rotateGroup[OF keepsGraph_refl[OF inv]]
    by (simp add: onDoubleTap_def Let_def split: option.splits)
next
  case (Wheel x y d)
  then show ?thesis using keepsGraph_refl[OF inv] by (simp add: onWheel_def Let_def)
next
  case FlipSelected
  then show ?thesis using keepsGraph_refl[OF inv]
    by (auto simp: flipSelectedPiece_def connectivityOf_upd flip_connectivity
        intro!: keepsGraph_heap split: option.splits)
next
  case RotateSelected
  then show ?thesis using keepsGraph_refl[OF inv]
    by (auto simp: rotateSelectedPiece_def connectivityOf_upd rotate90_connectivity
        intro!: keepsGraph_heap split: option.splits)
next
  case ClearSelection
  then show ?thesis using keepsGraph_refl[OF inv] by (simp add: clearSelection_def keepsGraph_deselect)
next
  case ResetView
  then show ?thesis using keepsGraph_refl[OF inv] by (simp add: resetView_def)
qed

lemma interact_preserves:
  assumes inv: "boardInv b" and sym: "symmetricConnectivity b"
  shows "boardInv (interact b e) \<and> symmetricConnectivity (interact b e)"
proof -
  from interact_cases[OF inv, of e]
  show ?thesis
  proof
    assume k: "keepsGraph b (interact b e)"
    show ?thesis using keepsGraph_boardInv[OF k inv] keepsGraph_symmetric[OF k] sym by simp
  next
    assume "\<exists>b1 g t. keepsGraph b b1 \<and> g \<in> set (pieces b) \<and> t \<in> set (pieces b)
                \<and> pid (heap b t) \<noteq> pid (heap b g)
                \<and> keepsGraph (connectPieces b1 g t) (interact b e)"
    then obtain b1 g t where k1: "keepsGraph b b1" and g: "g \<in> set (pieces b)"
      and t: "t \<in> set (pieces b)" and k2: "keepsGraph (connectPieces b1 g t) (interact b e)"
      by blast
    have i1: "boardInv b1" using keepsGraph_boardInv[OF k1 inv] .
    have s1: "symmetricConnectivity b1" using keepsGraph_symmetric[OF k1] sym by simp
    have g1: "g \<in> set (pieces b1)" and t1: "t \<in> set (pieces b1)"
      using g t keepsGraph_set[OF k1] by simp_all
    have u1: "uniqueIds b1" using i1 by (simp add: boardInv_def)
    have s2: "symmetricConnectivity (connectPieces b1 g t)"
      using connectPieces_symmetric[OF u1 g1 t1 s1] .
    have i2: "boardInv (connectPieces b1 g t)" using connectPieces_boardInv[OF i1] .
    show ?thesis using keepsGraph_boardInv[OF k2 i2] keepsGraph_symmetric[OF k2] s2 by simp
  qed
qed

lemma interactions_preserve:
  "boardInv b \<Longrightarrow> symmetricConnectivity b \<Longrightarrow>
     boardInv (foldl interact b es) \<and> symmetricConnectivity (foldl interact b es)"
proof (induction es arbitrary: b)
  case Nil
  then show ?case by simp
next
  case (Cons e es)
  then show ?case using interact_preserves[of b e] by simp
qed

text \<open>
  Claim C2. Connectivity is symmetric and stays so: on a board whose pieces have
  their own ids and whose connected-sets are symmetric (\<open>A\<close> names \<open>B\<close> exactly when \<open>B\<close>
  names \<open>A\<close>), the connected-sets are symmetric again after every run of interactions
  (pointer down, move and up, double tap, wheel, and the commands on the selection).
  Recording a connection adds each piece's id to the connected-set of the other, and
  both ids are still there after the merge that follows.
\<close>
theorem connectivity_stays_symmetric:
  assumes "boardInv b" and "symmetricConnectivity b"
  shows "symmetricConnectivity (foldl interact b es)
     \<and> boardInv (foldl interact b es)
     \<and> pid (heap b c) \<in> set (connectedPieces (heap (recordLink b a c) a))
     \<and> pid (heap b a) \<in> set (connectedPieces (heap (recordLink b a c) c))
     \<and> (a \<in> set (pieces b) \<and> c \<in> set (pieces b) \<and> a \<noteq> c \<longrightarrow>
          symmetricConnectivity (connectPieces b a c)
          \<and> pid (heap b c) \<in> set (connectedPieces (heap (connectPieces b a c) a))
          \<and> pid (heap b a) \<in> set (connectedPieces (heap (connectPieces b a c) c)))"
proof -
  have u: "uniqueIds b" using assms(1) by (simp add: boardInv_def)
  have rl: "pid (heap b c) \<in> set (connectedPieces (heap (recordLink b a c) a))"
    "pid (heap b a) \<in> set (connectedPieces (heap (recordLink b a c) c))"
    by (simp_all add: recordLink_connected)
  have cp: "a \<in> set (pieces b) \<and> c \<in> set (pieces b) \<and> a \<noteq> c \<longrightarrow>
          symmetricConnectivity (connectPieces b a c)
          \<and> pid (heap b c) \<in> set (connectedPieces (heap (connectPieces b a c) a))
          \<and> pid (heap b a) \<in> set (connectedPieces (heap (connectPieces b a c) c))"
    using connectPieces_symmetric[OF u _ _ assms(2), of a c] connectPieces_links[OF u, of a c]
    by (simp add: connectPieces_pid)
  show ?thesis using interactions_preserve[OF assms, of es] rl cp by blast
qed


lemma two_inv: "boardInv (boardOf twoPieces)"
  by (simp add: boardInv_def uniqueIds_def boardOf_def twoPieces_def pieceA_def pieceB_def newPiece_def)

lemma two_symmetric: "symmetricConnectivity (boardOf twoPieces)"
  by (simp add: symmetricConnectivity_def boardOf_def twoPieces_def pieceA_def pieceB_def newPiece_def)

theorem connectivity_stays_symmetric_witness:
  "boardInv (boardOf twoPieces) \<and> symmetricConnectivity (boardOf twoPieces)
   \<and> symmetricConnectivity
        (foldl interact (boardOf twoPieces) [PointerStart 550 250 1, PointerMove 350 255 1, PointerEnd 1])
   \<and> (0::nat) \<in> set (pieces (boardOf twoPieces)) \<and> (1::nat) \<in> set (pieces (boardOf twoPieces))
   \<and> (0::nat) \<noteq> 1
   \<and> 1 \<in> set (connectedPieces (heap (connectPieces (boardOf twoPieces) 0 1) 0))
   \<and> 0 \<in> set (connectedPieces (heap (connectPieces (boardOf twoPieces) 0 1) 1))"
proof -
  have p: "(0::nat) \<in> set (pieces (boardOf twoPieces))" "(1::nat) \<in> set (pieces (boardOf twoPieces))"
    by (simp_all add: boardOf_def)
  have ids: "pid (heap (boardOf twoPieces) 0) = 0" "pid (heap (boardOf twoPieces) 1) = 1"
    by (simp_all add: boardOf_def twoPieces_def pieceA_def pieceB_def newPiece_def)
  from connectivity_stays_symmetric[OF two_inv two_symmetric,
      of "[PointerStart 550 250 1, PointerMove 350 255 1, PointerEnd 1]" 1 0]
  show ?thesis using two_inv two_symmetric p ids by simp
qed

section \<open>Properties of progress reporting\<close>

lemma component_self: "a \<in> component b a"
  by (simp add: component_def)

lemma component_finite: "a \<in> set (pieces b) \<Longrightarrow> finite (component b a)"
  using component_subset_pieces[of a b] finite_set[of "pieces b"] by (blast intro: finite_subset)
























subsection \<open>A complete grid\<close>










section \<open>Locked pieces\<close>

lemma group_alone: "connectedPieces (heap b a) = [] \<Longrightarrow> getAllPiecesInGroup b a = [a]"
  by (simp add: getAllPiecesInGroup_def)

lemma group_pair:
  assumes "pieces b = [0, Suc 0]" and "pid (heap b 0) = 0" and "pid (heap b (Suc 0)) = 1"
    and "connectedPieces (heap b 0) = [1]" and "connectedPieces (heap b (Suc 0)) = [0]"
  shows "getAllPiecesInGroup b 0 = [0, Suc 0]" and "getAllPiecesInGroup b (Suc 0) = [Suc 0, 0]"
  using assms by (simp_all add: getAllPiecesInGroup_def findPiece_def)

lemma heap_normal: "(h(0 := u, Suc 0 := v))(0 := w) = h((0::nat) := w, Suc 0 := v)"
  by (simp add: fun_upd_twist)

lemma twoPieces_normal: "twoPieces = twoPieces(0 := pieceA, Suc 0 := pieceB)"
  by (auto simp: twoPieces_def fun_eq_iff)

lemma less_sqrt_iff: "0 \<le> c \<Longrightarrow> c < sqrt x \<longleftrightarrow> c * c < x"
proof -
  assume c: "0 \<le> c"
  have "c < sqrt x \<longleftrightarrow> sqrt (c * c) < sqrt x" using c by simp
  also have "\<dots> \<longleftrightarrow> c * c < x" by (rule real_sqrt_less_iff)
  finally show ?thesis .
qed

lemma sqrt_less_iff: "0 < c \<Longrightarrow> sqrt x < c \<longleftrightarrow> x < c * c"
proof -
  assume c: "0 < c"
  have "sqrt x < c \<longleftrightarrow> sqrt x < sqrt (c * c)" using c by simp
  also have "\<dots> \<longleftrightarrow> x < c * c" by (rule real_sqrt_less_iff)
  finally show ?thesis .
qed

lemma group_pair':
  assumes "pieces b = [Suc 0, 0]" and "pid (heap b 0) = 0" and "pid (heap b (Suc 0)) = 1"
    and "connectedPieces (heap b 0) = [1]" and "connectedPieces (heap b (Suc 0)) = [0]"
  shows "getAllPiecesInGroup b 0 = [0, Suc 0]" and "getAllPiecesInGroup b (Suc 0) = [Suc 0, 0]"
  using assms by (simp_all add: getAllPiecesInGroup_def findPiece_def)

lemmas run_simps =
  onPointerStart_def onPointerMove_def onPointerEnd_def onDoubleTap_def screenToWorld_def
  handlePointerDown_def handlePointerMove_def handlePointerUp_def
  rotateGroup_def groupCenter_def rotateAbout_def rotate90_def flip_def
  Let_def containsPoint_def getBounds_def jsmod_def bringToFront_def
  moveGroup_def translateGroup_def lockGroup_def applySnap_def
  connectPieces_def recordLink_def mergeGroups_def setFromList_def setAdd_def setDelete_def
  updateProgress_def getLargestClusterSize_def
  checkAndLockCorrectlyPlacedPieces_def isPieceCorrectlyPlaced_def isGroupCorrectlyPlaced_def
  findSnapTarget_def snapLoop.simps getConnection_def snapOf_def expectedCenter_def rotateVector_def
  hypot_less_iff sqrt_less_iff less_sqrt_iff SNAP_DISTANCE_def DRAG_THRESHOLD_def
  group_alone group_pair group_pair'
  heap_normal pieceA_def pieceB_def newPiece_def

lemma handlePointerUp_snap:
  assumes "\<not> activeAnimation b" and "selectedPiece b = Some sel" and "hasMovedBeyondThreshold b"
    and "d = b\<lparr>heap := (heap b)(sel := (heap b sel)\<lparr>isDragging := False\<rparr>)\<rparr>"
    and "bestSnapLoop d (getAllPiecesInGroup d sel) None = Some (snap, g)"
    and "applySnap d sel (getAllPiecesInGroup d sel) snap g = a"
    and "checkAndLockCorrectlyPlacedPieces ((updateProgress a)\<lparr>selectedPiece := None\<rparr>) = c"
    and "(updateProgress c)\<lparr>boardDragging := False, pointerDownScreenPos := None,
            hasMovedBeyondThreshold := False\<rparr> = h"
  shows "handlePointerUp b = h"
proof -
  have "handlePointerUp b =
      (updateProgress (checkAndLockCorrectlyPlacedPieces
         ((updateProgress (case bestSnapLoop d (getAllPiecesInGroup d sel) None of
                              Some (snapTarget, groupPiece) \<Rightarrow>
                                applySnap d sel (getAllPiecesInGroup d sel) snapTarget groupPiece
                            | None \<Rightarrow> d))\<lparr>selectedPiece := None\<rparr>)))
        \<lparr>boardDragging := False, pointerDownScreenPos := None, hasMovedBeyondThreshold := False\<rparr>"
    unfolding handlePointerUp_def Let_def assms(4) using assms(1,2,3) by simp
  then show ?thesis by (simp add: assms(5,6,7,8))
qed

lemma run_start:
  "boardOf twoPieces =
   \<lparr>heap = twoPieces(0 := pieceA,
                       Suc 0 := pieceB),
      pieces = [0, 1], selectedPiece = None, boardDragging = False,
      pointerDownScreenPos = None, hasMovedBeyondThreshold = False,
      camera = \<lparr>scale = 1, offsetX = 0, offsetY = 0\<rparr>,
      dragPointerId = None, panPointerId = None, panLast = None,
      activeAnimation = False, progressReports = []\<rparr>"
  by (simp add: boardOf_def twoPieces_normal[symmetric])

lemma run_step1:
  "interact
    \<lparr>heap = twoPieces(0 := pieceA,
                       Suc 0 := pieceB),
      pieces = [0, 1], selectedPiece = None, boardDragging = False,
      pointerDownScreenPos = None, hasMovedBeyondThreshold = False,
      camera = \<lparr>scale = 1, offsetX = 0, offsetY = 0\<rparr>,
      dragPointerId = None, panPointerId = None, panLast = None,
      activeAnimation = False, progressReports = []\<rparr>
    (PointerStart 250 250 1)
   = \<lparr>heap = twoPieces(0 := pieceA\<lparr>dragOffset := (50, 50)\<rparr>,
                       Suc 0 := pieceB),
      pieces = [1, 0], selectedPiece = Some 0, boardDragging = False,
      pointerDownScreenPos = Some (250, 250), hasMovedBeyondThreshold = False,
      camera = \<lparr>scale = 1, offsetX = 0, offsetY = 0\<rparr>,
      dragPointerId = Some 1, panPointerId = None, panLast = None,
      activeAnimation = False, progressReports = []\<rparr>"
  by (simp add: run_simps)

lemma run_step2:
  "interact
    \<lparr>heap = twoPieces(0 := pieceA\<lparr>dragOffset := (50, 50)\<rparr>,
                       Suc 0 := pieceB),
      pieces = [1, 0], selectedPiece = Some 0, boardDragging = False,
      pointerDownScreenPos = Some (250, 250), hasMovedBeyondThreshold = False,
      camera = \<lparr>scale = 1, offsetX = 0, offsetY = 0\<rparr>,
      dragPointerId = Some 1, panPointerId = None, panLast = None,
      activeAnimation = False, progressReports = []\<rparr>
    (PointerMove 40 50 1)
   = \<lparr>heap = twoPieces(0 := pieceA\<lparr>px := - 10, py := 0, isDragging := True, dragOffset := (50, 50)\<rparr>,
                       Suc 0 := pieceB),
      pieces = [1, 0], selectedPiece = Some 0, boardDragging = True,
      pointerDownScreenPos = Some (250, 250), hasMovedBeyondThreshold = True,
      camera = \<lparr>scale = 1, offsetX = 0, offsetY = 0\<rparr>,
      dragPointerId = Some 1, panPointerId = None, panLast = None,
      activeAnimation = False, progressReports = []\<rparr>"
  by (simp add: run_simps)

lemma run_step3:
  "interact
    \<lparr>heap = twoPieces(0 := pieceA\<lparr>px := - 10, py := 0, isDragging := True, dragOffset := (50, 50)\<rparr>,
                       Suc 0 := pieceB),
      pieces = [1, 0], selectedPiece = Some 0, boardDragging = True,
      pointerDownScreenPos = Some (250, 250), hasMovedBeyondThreshold = True,
      camera = \<lparr>scale = 1, offsetX = 0, offsetY = 0\<rparr>,
      dragPointerId = Some 1, panPointerId = None, panLast = None,
      activeAnimation = False, progressReports = []\<rparr>
    (PointerEnd 1)
   = \<lparr>heap = twoPieces(0 := pieceA\<lparr>px := - 10, py := 0, isDragging := False, dragOffset := (50, 50), isLocked := True\<rparr>,
                       Suc 0 := pieceB),
      pieces = [1, 0], selectedPiece = None, boardDragging = False,
      pointerDownScreenPos = None, hasMovedBeyondThreshold = False,
      camera = \<lparr>scale = 1, offsetX = 0, offsetY = 0\<rparr>,
      dragPointerId = None, panPointerId = None, panLast = None,
      activeAnimation = False, progressReports = [(1, 2), (1, 2)]\<rparr>"
  by (simp add: run_simps)

lemma run_step4:
  "interact
    \<lparr>heap = twoPieces(0 := pieceA\<lparr>px := - 10, py := 0, isDragging := False, dragOffset := (50, 50), isLocked := True\<rparr>,
                       Suc 0 := pieceB),
      pieces = [1, 0], selectedPiece = None, boardDragging = False,
      pointerDownScreenPos = None, hasMovedBeyondThreshold = False,
      camera = \<lparr>scale = 1, offsetX = 0, offsetY = 0\<rparr>,
      dragPointerId = None, panPointerId = None, panLast = None,
      activeAnimation = False, progressReports = [(1, 2), (1, 2)]\<rparr>
    (DoubleTap 40 50)
   = \<lparr>heap = twoPieces(0 := pieceA\<lparr>px := - 10, py := 0, rotation := 90, isDragging := False, dragOffset := (50, 50), isLocked := True\<rparr>,
                       Suc 0 := pieceB),
      pieces = [1, 0], selectedPiece = None, boardDragging = False,
      pointerDownScreenPos = None, hasMovedBeyondThreshold = False,
      camera = \<lparr>scale = 1, offsetX = 0, offsetY = 0\<rparr>,
      dragPointerId = None, panPointerId = None, panLast = None,
      activeAnimation = False, progressReports = [(1, 2), (1, 2)]\<rparr>"
  by (simp add: run_simps)

lemma run_step5:
  "interact
    \<lparr>heap = twoPieces(0 := pieceA\<lparr>px := - 10, py := 0, rotation := 90, isDragging := False, dragOffset := (50, 50), isLocked := True\<rparr>,
                       Suc 0 := pieceB),
      pieces = [1, 0], selectedPiece = None, boardDragging = False,
      pointerDownScreenPos = None, hasMovedBeyondThreshold = False,
      camera = \<lparr>scale = 1, offsetX = 0, offsetY = 0\<rparr>,
      dragPointerId = None, panPointerId = None, panLast = None,
      activeAnimation = False, progressReports = [(1, 2), (1, 2)]\<rparr>
    (DoubleTap 550 250)
   = \<lparr>heap = twoPieces(0 := pieceA\<lparr>px := - 10, py := 0, rotation := 90, isDragging := False, dragOffset := (50, 50), isLocked := True\<rparr>,
                       Suc 0 := pieceB\<lparr>rotation := 90\<rparr>),
      pieces = [1, 0], selectedPiece = None, boardDragging = False,
      pointerDownScreenPos = None, hasMovedBeyondThreshold = False,
      camera = \<lparr>scale = 1, offsetX = 0, offsetY = 0\<rparr>,
      dragPointerId = None, panPointerId = None, panLast = None,
      activeAnimation = False, progressReports = [(1, 2), (1, 2)]\<rparr>"
  by (simp add: run_simps)

lemma run_step6:
  "interact
    \<lparr>heap = twoPieces(0 := pieceA\<lparr>px := - 10, py := 0, rotation := 90, isDragging := False, dragOffset := (50, 50), isLocked := True\<rparr>,
                       Suc 0 := pieceB\<lparr>rotation := 90\<rparr>),
      pieces = [1, 0], selectedPiece = None, boardDragging = False,
      pointerDownScreenPos = None, hasMovedBeyondThreshold = False,
      camera = \<lparr>scale = 1, offsetX = 0, offsetY = 0\<rparr>,
      dragPointerId = None, panPointerId = None, panLast = None,
      activeAnimation = False, progressReports = [(1, 2), (1, 2)]\<rparr>
    (PointerStart 550 250 2)
   = \<lparr>heap = twoPieces(0 := pieceA\<lparr>px := - 10, py := 0, rotation := 90, isDragging := False, dragOffset := (50, 50), isLocked := True\<rparr>,
                       Suc 0 := pieceB\<lparr>rotation := 90, dragOffset := (50, 50)\<rparr>),
      pieces = [0, 1], selectedPiece = Some 1, boardDragging = False,
      pointerDownScreenPos = Some (550, 250), hasMovedBeyondThreshold = False,
      camera = \<lparr>scale = 1, offsetX = 0, offsetY = 0\<rparr>,
      dragPointerId = Some 2, panPointerId = None, panLast = None,
      activeAnimation = False, progressReports = [(1, 2), (1, 2)]\<rparr>"
  by (simp add: run_simps)

lemma run_step7:
  "interact
    \<lparr>heap = twoPieces(0 := pieceA\<lparr>px := - 10, py := 0, rotation := 90, isDragging := False, dragOffset := (50, 50), isLocked := True\<rparr>,
                       Suc 0 := pieceB\<lparr>rotation := 90, dragOffset := (50, 50)\<rparr>),
      pieces = [0, 1], selectedPiece = Some 1, boardDragging = False,
      pointerDownScreenPos = Some (550, 250), hasMovedBeyondThreshold = False,
      camera = \<lparr>scale = 1, offsetX = 0, offsetY = 0\<rparr>,
      dragPointerId = Some 2, panPointerId = None, panLast = None,
      activeAnimation = False, progressReports = [(1, 2), (1, 2)]\<rparr>
    (PointerMove 40 155 2)
   = \<lparr>heap = twoPieces(0 := pieceA\<lparr>px := - 10, py := 0, rotation := 90, isDragging := False, dragOffset := (50, 50), isLocked := True\<rparr>,
                       Suc 0 := pieceB\<lparr>px := - 10, py := 105, rotation := 90, isDragging := True, dragOffset := (50, 50)\<rparr>),
      pieces = [0, 1], selectedPiece = Some 1, boardDragging = True,
      pointerDownScreenPos = Some (550, 250), hasMovedBeyondThreshold = True,
      camera = \<lparr>scale = 1, offsetX = 0, offsetY = 0\<rparr>,
      dragPointerId = Some 2, panPointerId = None, panLast = None,
      activeAnimation = False, progressReports = [(1, 2), (1, 2)]\<rparr>"
  by (simp add: run_simps)

lemma run_step8:
  "interact
    \<lparr>heap = twoPieces(0 := pieceA\<lparr>px := - 10, py := 0, rotation := 90, isDragging := False, dragOffset := (50, 50), isLocked := True\<rparr>,
                       Suc 0 := pieceB\<lparr>px := - 10, py := 105, rotation := 90, isDragging := True, dragOffset := (50, 50)\<rparr>),
      pieces = [0, 1], selectedPiece = Some 1, boardDragging = True,
      pointerDownScreenPos = Some (550, 250), hasMovedBeyondThreshold = True,
      camera = \<lparr>scale = 1, offsetX = 0, offsetY = 0\<rparr>,
      dragPointerId = Some 2, panPointerId = None, panLast = None,
      activeAnimation = False, progressReports = [(1, 2), (1, 2)]\<rparr>
    (PointerEnd 2)
   = \<lparr>heap = twoPieces(0 := pieceA\<lparr>px := - 10, py := 0, rotation := 90, isDragging := False, dragOffset := (50, 50), isLocked := True, connectedPieces := [1]\<rparr>,
                       Suc 0 := pieceB\<lparr>px := - 10, py := 100, rotation := 90, isDragging := False, dragOffset := (50, 50), connectedPieces := [0]\<rparr>),
      pieces = [0, 1], selectedPiece = None, boardDragging = False,
      pointerDownScreenPos = None, hasMovedBeyondThreshold = False,
      camera = \<lparr>scale = 1, offsetX = 0, offsetY = 0\<rparr>,
      dragPointerId = None, panPointerId = None, panLast = None,
      activeAnimation = False, progressReports = [(1, 2), (1, 2), (2, 2), (2, 2)]\<rparr>"
proof -
  let ?b = "\<lparr>heap = twoPieces(0 := pieceA\<lparr>px := - 10, py := 0, rotation := 90, isDragging := False, dragOffset := (50, 50), isLocked := True\<rparr>,
                       Suc 0 := pieceB\<lparr>px := - 10, py := 105, rotation := 90, isDragging := True, dragOffset := (50, 50)\<rparr>),
      pieces = [0, 1], selectedPiece = Some 1, boardDragging = True,
      pointerDownScreenPos = Some (550, 250), hasMovedBeyondThreshold = True,
      camera = \<lparr>scale = 1, offsetX = 0, offsetY = 0\<rparr>,
      dragPointerId = Some 2, panPointerId = None, panLast = None,
      activeAnimation = False, progressReports = [(1, 2), (1, 2)]\<rparr>"
  let ?d = "\<lparr>heap = twoPieces(0 := pieceA\<lparr>px := - 10, py := 0, rotation := 90, isDragging := False, dragOffset := (50, 50), isLocked := True\<rparr>,
                       Suc 0 := pieceB\<lparr>px := - 10, py := 105, rotation := 90, isDragging := False, dragOffset := (50, 50)\<rparr>),
      pieces = [0, 1], selectedPiece = Some 1, boardDragging = True,
      pointerDownScreenPos = Some (550, 250), hasMovedBeyondThreshold = True,
      camera = \<lparr>scale = 1, offsetX = 0, offsetY = 0\<rparr>,
      dragPointerId = Some 2, panPointerId = None, panLast = None,
      activeAnimation = False, progressReports = [(1, 2), (1, 2)]\<rparr>"
  let ?t = "\<lparr>heap = twoPieces(0 := pieceA\<lparr>px := - 10, py := 0, rotation := 90, isDragging := False, dragOffset := (50, 50), isLocked := True\<rparr>,
                       Suc 0 := pieceB\<lparr>px := - 10, py := 100, rotation := 90, isDragging := False, dragOffset := (50, 50)\<rparr>),
      pieces = [0, 1], selectedPiece = Some 1, boardDragging = True,
      pointerDownScreenPos = Some (550, 250), hasMovedBeyondThreshold = True,
      camera = \<lparr>scale = 1, offsetX = 0, offsetY = 0\<rparr>,
      dragPointerId = Some 2, panPointerId = None, panLast = None,
      activeAnimation = False, progressReports = [(1, 2), (1, 2)]\<rparr>"
  let ?a = "\<lparr>heap = twoPieces(0 := pieceA\<lparr>px := - 10, py := 0, rotation := 90, isDragging := False, dragOffset := (50, 50), isLocked := True, connectedPieces := [1]\<rparr>,
                       Suc 0 := pieceB\<lparr>px := - 10, py := 100, rotation := 90, isDragging := False, dragOffset := (50, 50), connectedPieces := [0]\<rparr>),
      pieces = [0, 1], selectedPiece = Some 1, boardDragging = True,
      pointerDownScreenPos = Some (550, 250), hasMovedBeyondThreshold = True,
      camera = \<lparr>scale = 1, offsetX = 0, offsetY = 0\<rparr>,
      dragPointerId = Some 2, panPointerId = None, panLast = None,
      activeAnimation = False, progressReports = [(1, 2), (1, 2)]\<rparr>"
  let ?c = "\<lparr>heap = twoPieces(0 := pieceA\<lparr>px := - 10, py := 0, rotation := 90, isDragging := False, dragOffset := (50, 50), isLocked := True, connectedPieces := [1]\<rparr>,
                       Suc 0 := pieceB\<lparr>px := - 10, py := 100, rotation := 90, isDragging := False, dragOffset := (50, 50), connectedPieces := [0]\<rparr>),
      pieces = [0, 1], selectedPiece = None, boardDragging = True,
      pointerDownScreenPos = Some (550, 250), hasMovedBeyondThreshold = True,
      camera = \<lparr>scale = 1, offsetX = 0, offsetY = 0\<rparr>,
      dragPointerId = Some 2, panPointerId = None, panLast = None,
      activeAnimation = False, progressReports = [(1, 2), (1, 2), (2, 2)]\<rparr>"
  let ?h = "\<lparr>heap = twoPieces(0 := pieceA\<lparr>px := - 10, py := 0, rotation := 90, isDragging := False, dragOffset := (50, 50), isLocked := True, connectedPieces := [1]\<rparr>,
                       Suc 0 := pieceB\<lparr>px := - 10, py := 100, rotation := 90, isDragging := False, dragOffset := (50, 50), connectedPieces := [0]\<rparr>),
      pieces = [0, 1], selectedPiece = None, boardDragging = False,
      pointerDownScreenPos = None, hasMovedBeyondThreshold = False,
      camera = \<lparr>scale = 1, offsetX = 0, offsetY = 0\<rparr>,
      dragPointerId = Some 2, panPointerId = None, panLast = None,
      activeAnimation = False, progressReports = [(1, 2), (1, 2), (2, 2), (2, 2)]\<rparr>"
  let ?snap = "\<lparr>targetPiece = 0, snapX = - 10, snapY = 100,
        connection = \<lparr>edge = EdgeLeft, ctype = Some Blank,
                       matingPieceId = Some 0, matingEdge = Some EdgeRight\<rparr>,
        distance = 5\<rparr>"
  have d: "?d = ?b\<lparr>heap := (heap ?b)(1 := (heap ?b 1)\<lparr>isDragging := False\<rparr>)\<rparr>"
    by (simp add: pieceB_def newPiece_def)
  have grp: "getAllPiecesInGroup ?d 1 = [1]"
    by (simp add: group_alone pieceB_def newPiece_def)
  have find: "findSnapTarget (heap ?d) 1 (pieces ?d) (px (heap ?d 1)) (py (heap ?d 1)) = Some ?snap"
    by (simp add: run_simps hypot_def sqrt_25)
  have best: "bestSnapLoop ?d (getAllPiecesInGroup ?d 1) None = Some (?snap, 1)"
    unfolding grp using find by simp
  have tr: "?d\<lparr>heap := translateGroup (heap ?d) [1]
                 (snapX ?snap - px (heap ?d 1)) (snapY ?snap - py (heap ?d 1))\<rparr> = ?t"
    by (simp add: translateGroup_def pieceB_def newPiece_def)
  have link: "recordLink ?t 1 0 = ?a"
    by (simp add: recordLink_def setAdd_def Let_def heap_normal pieceA_def pieceB_def newPiece_def)
  have merge: "mergeGroups ?a 1 0 = ?a"
    by (simp add: run_simps)
  have target: "targetPiece ?snap = 0"
    by simp
  have conn: "connectPieces ?t 1 (targetPiece ?snap) = ?a"
    unfolding target connectPieces_def link merge by (rule refl)
  have placed: "\<not> isGroupCorrectlyPlaced (heap ?a) (getAllPiecesInGroup ?a 1)"
    by (simp add: isGroupCorrectlyPlaced_def group_pair pieceA_def pieceB_def newPiece_def)
  have snapped: "applySnap ?d 1 (getAllPiecesInGroup ?d 1) ?snap 1 = ?a"
    unfolding grp applySnap_def Let_def tr conn using placed by simp
  have lock: "checkAndLockCorrectlyPlacedPieces ((updateProgress ?a)\<lparr>selectedPiece := None\<rparr>) = ?c"
    by (simp add: run_simps)
  have fin: "(updateProgress ?c)\<lparr>boardDragging := False, pointerDownScreenPos := None,
                 hasMovedBeyondThreshold := False\<rparr> = ?h"
    by (simp add: run_simps)
  have na: "\<not> activeAnimation ?b" and sel: "selectedPiece ?b = Some 1"
    and moved: "hasMovedBeyondThreshold ?b"
    by simp_all
  have up: "handlePointerUp ?b = ?h"
    by (rule handlePointerUp_snap[OF na sel moved d best snapped lock fin])
  show ?thesis unfolding interact.simps onPointerEnd_def Let_def up by simp
qed

lemma run_step9:
  "interact
    \<lparr>heap = twoPieces(0 := pieceA\<lparr>px := - 10, py := 0, rotation := 90, isDragging := False, dragOffset := (50, 50), isLocked := True, connectedPieces := [1]\<rparr>,
                       Suc 0 := pieceB\<lparr>px := - 10, py := 100, rotation := 90, isDragging := False, dragOffset := (50, 50), connectedPieces := [0]\<rparr>),
      pieces = [0, 1], selectedPiece = None, boardDragging = False,
      pointerDownScreenPos = None, hasMovedBeyondThreshold = False,
      camera = \<lparr>scale = 1, offsetX = 0, offsetY = 0\<rparr>,
      dragPointerId = None, panPointerId = None, panLast = None,
      activeAnimation = False, progressReports = [(1, 2), (1, 2), (2, 2), (2, 2)]\<rparr>
    (PointerStart 40 150 3)
   = \<lparr>heap = twoPieces(0 := pieceA\<lparr>px := - 10, py := 0, rotation := 90, isDragging := False, dragOffset := (50, 50), isLocked := True, connectedPieces := [1]\<rparr>,
                       Suc 0 := pieceB\<lparr>px := - 10, py := 100, rotation := 90, isDragging := False, dragOffset := (50, 50), connectedPieces := [0]\<rparr>),
      pieces = [0, 1], selectedPiece = Some 1, boardDragging = False,
      pointerDownScreenPos = Some (40, 150), hasMovedBeyondThreshold = False,
      camera = \<lparr>scale = 1, offsetX = 0, offsetY = 0\<rparr>,
      dragPointerId = Some 3, panPointerId = None, panLast = None,
      activeAnimation = False, progressReports = [(1, 2), (1, 2), (2, 2), (2, 2)]\<rparr>"
  by (simp add: run_simps)

lemma run_step10:
  "interact
    \<lparr>heap = twoPieces(0 := pieceA\<lparr>px := - 10, py := 0, rotation := 90, isDragging := False, dragOffset := (50, 50), isLocked := True, connectedPieces := [1]\<rparr>,
                       Suc 0 := pieceB\<lparr>px := - 10, py := 100, rotation := 90, isDragging := False, dragOffset := (50, 50), connectedPieces := [0]\<rparr>),
      pieces = [0, 1], selectedPiece = Some 1, boardDragging = False,
      pointerDownScreenPos = Some (40, 150), hasMovedBeyondThreshold = False,
      camera = \<lparr>scale = 1, offsetX = 0, offsetY = 0\<rparr>,
      dragPointerId = Some 3, panPointerId = None, panLast = None,
      activeAnimation = False, progressReports = [(1, 2), (1, 2), (2, 2), (2, 2)]\<rparr>
    (PointerMove 140 150 3)
   = \<lparr>heap = twoPieces(0 := pieceA\<lparr>px := 90, py := 0, rotation := 90, isDragging := False, dragOffset := (50, 50), isLocked := True, connectedPieces := [1]\<rparr>,
                       Suc 0 := pieceB\<lparr>px := 90, py := 100, rotation := 90, isDragging := True, dragOffset := (50, 50), connectedPieces := [0]\<rparr>),
      pieces = [0, 1], selectedPiece = Some 1, boardDragging = True,
      pointerDownScreenPos = Some (40, 150), hasMovedBeyondThreshold = True,
      camera = \<lparr>scale = 1, offsetX = 0, offsetY = 0\<rparr>,
      dragPointerId = Some 3, panPointerId = None, panLast = None,
      activeAnimation = False, progressReports = [(1, 2), (1, 2), (2, 2), (2, 2)]\<rparr>"
  by (simp add: run_simps)



lemma handlePointerDown_skips_locked:
  assumes "\<not> activeAnimation b" and "selectedPiece (handlePointerDown b x y sx sy i) = Some s"
  shows "\<not> isLocked (heap b s) \<and> containsPoint (heap b s) x y \<and> s \<in> set (pieces b)"
proof -
  define candidates where "candidates =
     map (\<lambda>p. (p, length (getAllPiecesInGroup b p)))
       (filter (\<lambda>p. \<not> isLocked (heap b p) \<and> containsPoint (heap b p) x y) (rev (pieces b)))"
  have sel: "selectedPiece (handlePointerDown b x y sx sy i) =
     (case sort_key snd candidates of
        [] \<Rightarrow> None
      | selectedCandidate # rest \<Rightarrow>
          if selectedPiece b = Some (fst selectedCandidate) then None
          else Some (fst selectedCandidate))"
    using assms(1) unfolding handlePointerDown_def candidates_def
    by (simp add: Let_def bringToFront_def split: list.splits)
  from assms(2) obtain sc rest where sc: "sort_key snd candidates = sc # rest" and s: "s = fst sc"
    unfolding sel by (auto split: list.splits if_splits)
  have "sc \<in> set (sort_key snd candidates)" using sc by simp
  then have "sc \<in> set candidates" by simp
  then show ?thesis using s by (auto simp: candidates_def)
qed

text \<open>
  Claim C6 says that once a piece is locked no drag or snap changes its position or
  rotation. Pointer-down does leave locked pieces out of its hit test (the lemma
  above), but nothing else looks at the flag: the double tap turns a locked piece, a
  piece that snaps onto a locked piece with a rotation other than 0 stays unlocked, and
  the group translation of a drag moves every member of the group. In the run below
  piece 0 is locked at (-10, 0); after both pieces have been double-tapped and piece 1
  has snapped onto it, dragging piece 1 carries the locked piece 0 to (90, 0).
\<close>
theorem locked_piece_is_dragged_with_its_group:
  "isLocked (heap (foldl interact (boardOf twoPieces) lockingRun) 0)
   \<and> px (heap (foldl interact (boardOf twoPieces) lockingRun) 0) = - 10
   \<and> py (heap (foldl interact (boardOf twoPieces) lockingRun) 0) = 0
   \<and> rotation (heap (foldl interact (boardOf twoPieces) lockingRun) 0) = 0
   \<and> isLocked (heap (foldl interact (boardOf twoPieces) (lockingRun @ joiningRun)) 0)
   \<and> \<not> isLocked (heap (foldl interact (boardOf twoPieces) (lockingRun @ joiningRun)) 1)
   \<and> px (heap (foldl interact (boardOf twoPieces) (lockingRun @ joiningRun)) 0) = - 10
   \<and> py (heap (foldl interact (boardOf twoPieces) (lockingRun @ joiningRun)) 0) = 0
   \<and> rotation (heap (foldl interact (boardOf twoPieces) (lockingRun @ joiningRun)) 0) = 90
   \<and> isLocked (heap (foldl interact (boardOf twoPieces) (lockingRun @ joiningRun @ draggingRun)) 0)
   \<and> px (heap (foldl interact (boardOf twoPieces) (lockingRun @ joiningRun @ draggingRun)) 0) = 90
   \<and> py (heap (foldl interact (boardOf twoPieces) (lockingRun @ joiningRun @ draggingRun)) 0) = 0"
  unfolding lockingRun_def joiningRun_def draggingRun_def append.simps foldl.simps run_start
    run_step1 run_step2 run_step3 run_step4 run_step5 run_step6 run_step7 run_step8 run_step9
    run_step10
  by (simp add: pieceA_def pieceB_def newPiece_def)

end
